theory Spec2Isabelle
  imports Main
begin

section \<open>Values of the untyped schedule payload\<close>

text \<open>
  \<open>WorkoutPlan.schedule_data\<close> is declared \<open>any\<close> (src/lib/workoutPlan.ts, line 12) and
  comes from a JSON column, so the model keeps it as a JSON-like value. An object is an
  association list of its own properties. Numbers are kept as integers: the program only
  tests a number for being zero and copies it.
\<close>

datatype jsval =
    JUndefined
  | JNull
  | JBool bool
  | JNum int
  | JStr string
  | JArr "jsval list"
  | JObj "(string \<times> jsval) list"

datatype exn = TypeError | RangeError | InsertThrown

text \<open>The condition of an \<open>if\<close> or the left operand of \<open>&&\<close>: ToBoolean.\<close>

fun truthy :: "jsval \<Rightarrow> bool" where
  "truthy JUndefined = False"
| "truthy JNull = False"
| "truthy (JBool b) = b"
| "truthy (JNum n) = (n \<noteq> 0)"
| "truthy (JStr s) = (s \<noteq> [])"
| "truthy (JArr xs) = True"
| "truthy (JObj kvs) = True"

definition nullish :: "jsval \<Rightarrow> bool" where
  "nullish v = (v = JUndefined \<or> v = JNull)"

text \<open>
  \<open>v[k]\<close> and \<open>v.k\<close> for a property name \<open>k\<close> that is neither an array index,
  \<open>length\<close> nor a name inherited from a prototype; the names the program reads this way
  are the seven weekday names, \<open>date\<close>, \<open>templateId\<close> and \<open>label\<close>. Reading a
  property of \<open>undefined\<close> or \<open>null\<close> throws a TypeError; a primitive, an array or a
  string has no own property of such a name, and a missing property reads as \<open>undefined\<close>.
\<close>

fun own_prop :: "jsval \<Rightarrow> string \<Rightarrow> jsval" where
  "own_prop (JObj kvs) k = (case map_of kvs k of None \<Rightarrow> JUndefined | Some v \<Rightarrow> v)"
| "own_prop v k = JUndefined"

definition js_get :: "jsval \<Rightarrow> string \<Rightarrow> exn + jsval" where
  "js_get v k = (if nullish v then Inl TypeError else Inr (own_prop v k))"

definition digit :: "int \<Rightarrow> char" where
  "digit n = ''0123456789'' ! nat (n mod 10)"

text \<open>The last \<open>w\<close> decimal digits of \<open>v\<close>, zero-padded on the left.\<close>

primrec dec_digits :: "nat \<Rightarrow> int \<Rightarrow> string" where
  "dec_digits 0 v = []"
| "dec_digits (Suc w) v = dec_digits w (v div 10) @ [digit v]"

definition pad :: "nat \<Rightarrow> int \<Rightarrow> string" where
  "pad w v = dec_digits w v"

text \<open>ToString of a non-negative integer, as used for the property key of a number.\<close>

fun string_of_nat :: "nat \<Rightarrow> string" where
  "string_of_nat n =
     (if n < 10 then [digit (int n)] else string_of_nat (n div 10) @ [digit (int n)])"

text \<open>
  \<open>v[n]\<close> for a non-negative integer \<open>n\<close>: an element of an array, a one-character
  string of a string, the property named by the decimal numeral of an object.
\<close>

fun own_index :: "jsval \<Rightarrow> nat \<Rightarrow> jsval" where
  "own_index (JObj kvs) n =
     (case map_of kvs (string_of_nat n) of None \<Rightarrow> JUndefined | Some v \<Rightarrow> v)"
| "own_index (JArr xs) n = (if n < length xs then xs ! n else JUndefined)"
| "own_index (JStr s) n = (if n < length s then JStr [s ! n] else JUndefined)"
| "own_index v n = JUndefined"

definition js_get_index :: "jsval \<Rightarrow> nat \<Rightarrow> exn + jsval" where
  "js_get_index v n = (if nullish v then Inl TypeError else Inr (own_index v n))"

section \<open>The Date object\<close>

text \<open>
  A Date holds a time value: milliseconds since 1970-01-01T00:00:00Z, or NaN for an invalid
  date (\<open>None\<close>). The calendar is the proleptic Gregorian one. Two things are left to
  the JavaScript engine and the device, and are the fields of a \<open>runtime\<close>, a parameter
  of every function that depends on them:

  \<^item> \<open>Date_parse\<close>, the function \<open>Date.parse\<close> on strings: the time value a string
    denotes, or NaN. Engines agree on the date time string format and differ on every
    other string; the theorems hold for every such function.
  \<^item> the local time zone: \<open>tz_base\<close> is the least offset of local time from UTC the zone
    has, in milliseconds; \<open>tz_utc t\<close> is how far the offset in force at the instant
    \<open>t\<close> lies above it (the daylight-saving shift), and \<open>tz_local l\<close> the same for the
    local time \<open>l\<close>. Both are arbitrary functions, read modulo one day: the offsets of one
    zone lie less than a day apart. (A zone that has moved across the date line, its offset
    changing by a whole day, is the one thing left out.)

  \<open>new Date(s)\<close> and \<open>toISOString\<close> work in UTC; \<open>toLocaleDateString\<close>, \<open>getDate\<close>
  and \<open>setDate\<close> work on the local date.
\<close>

record runtime =
  Date_parse :: "string \<Rightarrow> int option"
  tz_base :: int
  tz_utc :: "int \<Rightarrow> int"
  tz_local :: "int \<Rightarrow> int"

definition msPerDay :: int where
  "msPerDay = 86400000"

definition maxTime :: int where
  "maxTime = 8640000000000000"

definition Day :: "int \<Rightarrow> int" where
  "Day t = t div msPerDay"

definition TimeWithinDay :: "int \<Rightarrow> int" where
  "TimeWithinDay t = t mod msPerDay"

definition WeekDay :: "int \<Rightarrow> int" where
  "WeekDay t = (Day t + 4) mod 7"

text \<open>
  \<open>LocalTZA(t, isUTC)\<close>: the offset of local time from UTC at the instant \<open>t\<close>
  (\<open>isUTC\<close> true) or at the local time \<open>t\<close> (\<open>isUTC\<close> false);
  \<open>LocalTime(t) = t + LocalTZA(t, true)\<close> and \<open>UTC(t) = t - LocalTZA(t, false)\<close>.
\<close>

definition LocalTZA :: "runtime \<Rightarrow> int \<Rightarrow> bool \<Rightarrow> int" where
  "LocalTZA rt t isUTC =
     tz_base rt + (if isUTC then tz_utc rt t else tz_local rt t) mod msPerDay"

definition LocalTime :: "runtime \<Rightarrow> int \<Rightarrow> int" where
  "LocalTime rt t = t + LocalTZA rt t True"

definition UTC :: "runtime \<Rightarrow> int \<Rightarrow> int" where
  "UTC rt t = t - LocalTZA rt t False"

definition TimeClip :: "int \<Rightarrow> int option" where
  "TimeClip t = (if \<bar>t\<bar> > maxTime then None else Some t)"

text \<open>Day number (days since 1970-01-01) of year \<open>y\<close>, month \<open>m\<close> (1 to 12), day \<open>d\<close>.\<close>

definition days_from_civil :: "int \<Rightarrow> int \<Rightarrow> int \<Rightarrow> int" where
  "days_from_civil y m d =
     (let y' = (if m \<le> 2 then y - 1 else y);
          era = y' div 400;
          yoe = y' mod 400;
          mp = (if m > 2 then m - 3 else m + 9);
          doy = (153 * mp + 2) div 5 + d - 1;
          doe = yoe * 365 + yoe div 4 - yoe div 100 + doy
      in era * 146097 + doe - 719468)"

text \<open>Year, month (1 to 12) and day of the month of a day number.\<close>

definition civil_from_days :: "int \<Rightarrow> int \<times> int \<times> int" where
  "civil_from_days z =
     (let n = z + 719468;
          era = n div 146097;
          doe = n mod 146097;
          cent = min 3 (doe div 36524);
          doc = doe - cent * 36524;
          q = min 24 (doc div 1461);
          doq = doc - q * 1461;
          yr = min 3 (doq div 365);
          doy = doq - yr * 365;
          yoe = cent * 100 + q * 4 + yr;
          mp = (5 * doy + 2) div 153;
          d = doy - (153 * mp + 2) div 5 + 1;
          m = (if mp < 10 then mp + 3 else mp - 9)
      in (era * 400 + yoe + (if m \<le> 2 then 1 else 0), m, d))"

definition digit_val :: "char \<Rightarrow> int option" where
  "digit_val c = map_of (zip ''0123456789'' [0, 1, 2, 3, 4, 5, 6, 7, 8, 9]) c"

fun num_of :: "int \<Rightarrow> string \<Rightarrow> int option" where
  "num_of acc [] = Some acc"
| "num_of acc (c # cs) =
     (case digit_val c of None \<Rightarrow> None | Some v \<Rightarrow> num_of (10 * acc + v) cs)"

text \<open>
  \<open>new Date(s)\<close> for a string: the time value \<open>Date.parse\<close> gives, kept when it is in
  the range of time values.
\<close>

definition new_Date :: "runtime \<Rightarrow> string \<Rightarrow> int option" where
  "new_Date rt s = (case Date_parse rt s of None \<Rightarrow> None | Some t \<Rightarrow> TimeClip t)"

text \<open>\<open>a <= b\<close> on two Dates compares their time values; with NaN it is false.\<close>

definition date_le :: "int option \<Rightarrow> int option \<Rightarrow> bool" where
  "date_le a b = (case (a, b) of (Some x, Some y) \<Rightarrow> x \<le> y | _ \<Rightarrow> False)"

definition weekday_names :: "string list" where
  "weekday_names =
     [''Sunday'', ''Monday'', ''Tuesday'', ''Wednesday'', ''Thursday'', ''Friday'', ''Saturday'']"

text \<open>\<open>d.toLocaleDateString('en-US', { weekday: 'long' })\<close>: the weekday of the local date.\<close>

definition toLocaleDateString_weekday :: "runtime \<Rightarrow> int option \<Rightarrow> string" where
  "toLocaleDateString_weekday rt d =
     (case d of
        None \<Rightarrow> ''Invalid Date''
      | Some t \<Rightarrow> weekday_names ! nat (WeekDay (LocalTime rt t)))"

definition year_str :: "int \<Rightarrow> string" where
  "year_str y =
     (if 0 \<le> y \<and> y \<le> 9999 then pad 4 y
      else (if y < 0 then ''-'' else ''+'') @ pad 6 \<bar>y\<bar>)"

text \<open>\<open>d.toISOString()\<close>: the UTC fields, \<open>YYYY-MM-DDTHH:mm:ss.sssZ\<close>; a RangeError on an invalid date.\<close>

definition toISOString :: "int option \<Rightarrow> exn + string" where
  "toISOString d =
     (case d of
        None \<Rightarrow> Inl RangeError
      | Some t \<Rightarrow>
          (case civil_from_days (Day t) of (y, m, dd) \<Rightarrow>
             let ms = TimeWithinDay t in
             Inr (year_str y @ ''-'' @ pad 2 m @ ''-'' @ pad 2 dd @ ''T''
                  @ pad 2 (ms div 3600000) @ '':'' @ pad 2 (ms div 60000 mod 60) @ '':''
                  @ pad 2 (ms div 1000 mod 60) @ ''.'' @ pad 3 (ms mod 1000) @ ''Z'')))"

text \<open>\<open>s.split('T')[0]\<close>: the part of \<open>s\<close> before its first \<open>T\<close>.\<close>

definition split_T_0 :: "string \<Rightarrow> string" where
  "split_T_0 s = takeWhile (\<lambda>c. c \<noteq> CHR ''T'') s"

text \<open>The date part of \<open>toISOString\<close>, which \<open>split('T')[0]\<close> takes (see \<open>split_T_0_toISOString\<close>).\<close>

definition iso_date :: "int \<Rightarrow> string" where
  "iso_date t =
     (case civil_from_days (Day t) of (y, m, dd) \<Rightarrow>
        year_str y @ ''-'' @ pad 2 m @ ''-'' @ pad 2 dd)"

text \<open>\<open>d.getDate()\<close>: the day of the month of the local date.\<close>

definition getDate :: "runtime \<Rightarrow> int option \<Rightarrow> int option" where
  "getDate rt d =
     (case d of
        None \<Rightarrow> None
      | Some t \<Rightarrow> (case civil_from_days (Day (LocalTime rt t)) of (y, m, dd) \<Rightarrow> Some dd))"

text \<open>
  \<open>d.setDate(n)\<close>: the local date becomes day \<open>n\<close> of the local month (counting on into
  the next month when \<open>n\<close> is past its end), the local time of day stays, the result is
  read as a local time, with the offset in force then, and clipped to the range of time
  values. It returns the new state of \<open>d\<close>.
\<close>

definition setDate :: "runtime \<Rightarrow> int option \<Rightarrow> int option \<Rightarrow> int option" where
  "setDate rt d n =
     (case (d, n) of
        (Some t, Some dt) \<Rightarrow>
          (let l = LocalTime rt t in
           case civil_from_days (Day l) of (y, m, dd) \<Rightarrow>
             TimeClip (UTC rt (days_from_civil y m dt * msPerDay + TimeWithinDay l)))
      | _ \<Rightarrow> None)"

text \<open>
  The date time string format, which every engine's \<open>Date.parse\<close> accepts:
  \<open>YYYY\<close>, \<open>YYYY-MM\<close> or \<open>YYYY-MM-DD\<close> (the year also as a sign and six digits),
  alone or followed by \<open>T\<close>, a time \<open>HH:mm\<close>, \<open>HH:mm:ss\<close> or \<open>HH:mm:ss.sss\<close>, and
  an optional \<open>Z\<close> or offset \<open>+HH:mm\<close>, \<open>-HH:mm\<close>. A date alone is midnight UTC of that
  day; a date and time with no offset is a local time. The day is at most 31 and is not
  checked against the length of its month: a day past the end counts on into the next month.
\<close>

definition read_field :: "nat \<Rightarrow> string \<Rightarrow> (int \<times> string) option" where
  "read_field n s =
     (if length s < n then None
      else (case num_of 0 (take n s) of None \<Rightarrow> None | Some v \<Rightarrow> Some (v, drop n s)))"

definition read_year :: "string \<Rightarrow> (int \<times> string) option" where
  "read_year s =
     (case s of
        [] \<Rightarrow> None
      | c # cs \<Rightarrow>
          if c = CHR ''+'' then read_field 6 cs
          else if c = CHR ''-'' then
            (case read_field 6 cs of
               None \<Rightarrow> None
             | Some (y, r) \<Rightarrow> if y = 0 then None else Some (- y, r))
          else read_field 4 s)"

definition make_day :: "int \<Rightarrow> int \<Rightarrow> int \<Rightarrow> string \<Rightarrow> (int \<times> string) option" where
  "make_day y m d r =
     (if 1 \<le> m \<and> m \<le> 12 \<and> 1 \<le> d \<and> d \<le> 31 then Some (days_from_civil y m d, r) else None)"

text \<open>The date at the head of a string, as a day number, and what follows it.\<close>

definition read_date_part :: "string \<Rightarrow> (int \<times> string) option" where
  "read_date_part s =
     (case read_year s of
        None \<Rightarrow> None
      | Some (y, r) \<Rightarrow>
          (case r of
             [] \<Rightarrow> make_day y 1 1 r
           | c # r1 \<Rightarrow>
               if c = CHR ''-'' then
                 (case read_field 2 r1 of
                    None \<Rightarrow> None
                  | Some (m, r2) \<Rightarrow>
                      (case r2 of
                         [] \<Rightarrow> make_day y m 1 r2
                       | c2 # r3 \<Rightarrow>
                           if c2 = CHR ''-'' then
                             (case read_field 2 r3 of
                                None \<Rightarrow> None
                              | Some (d, r4) \<Rightarrow> make_day y m d r4)
                           else make_day y m 1 r2))
               else make_day y 1 1 r))"

text \<open>Seconds and milliseconds, when they are given: \<open>:ss\<close> or \<open>:ss.sss\<close>.\<close>

definition read_seconds :: "string \<Rightarrow> (int \<times> string) option" where
  "read_seconds r =
     (case r of
        [] \<Rightarrow> Some (0, r)
      | c # r1 \<Rightarrow>
          if c = CHR '':'' then
            (case read_field 2 r1 of
               None \<Rightarrow> None
             | Some (sec, r2) \<Rightarrow>
                 if sec > 59 then None
                 else (case r2 of
                         [] \<Rightarrow> Some (sec * 1000, r2)
                       | c2 # r3 \<Rightarrow>
                           if c2 = CHR ''.'' then
                             (case read_field 3 r3 of
                                None \<Rightarrow> None
                              | Some (ms, r4) \<Rightarrow> Some (sec * 1000 + ms, r4))
                           else Some (sec * 1000, r2)))
          else Some (0, r))"

text \<open>The time of day in milliseconds: \<open>HH:mm\<close> and the optional seconds; \<open>24:00\<close> is the end of the day.\<close>

definition read_clock :: "string \<Rightarrow> (int \<times> string) option" where
  "read_clock s =
     (case read_field 2 s of
        None \<Rightarrow> None
      | Some (h, r) \<Rightarrow>
          (case r of
             [] \<Rightarrow> None
           | c # r1 \<Rightarrow>
               if c = CHR '':'' then
                 (case read_field 2 r1 of
                    None \<Rightarrow> None
                  | Some (mi, r2) \<Rightarrow>
                      (case read_seconds r2 of
                         None \<Rightarrow> None
                       | Some (ms, r3) \<Rightarrow>
                           if (h \<le> 23 \<and> mi \<le> 59) \<or> (h = 24 \<and> mi = 0 \<and> ms = 0)
                           then Some (h * 3600000 + mi * 60000 + ms, r3)
                           else None))
               else None))"

text \<open>
  The end of a date and time: nothing (a local time, \<open>Some None\<close>), \<open>Z\<close>, or an
  offset from UTC in milliseconds.
\<close>

definition read_zone :: "string \<Rightarrow> int option option" where
  "read_zone r =
     (case r of
        [] \<Rightarrow> Some None
      | c # r1 \<Rightarrow>
          if r = ''Z'' then Some (Some 0)
          else if c = CHR ''+'' \<or> c = CHR ''-'' then
            (case read_field 2 r1 of
               None \<Rightarrow> None
             | Some (h, r2) \<Rightarrow>
                 (case r2 of
                    [] \<Rightarrow> None
                  | c2 # r3 \<Rightarrow>
                      if c2 = CHR '':'' then
                        (case read_field 2 r3 of
                           None \<Rightarrow> None
                         | Some (mi, r4) \<Rightarrow>
                             if r4 = [] \<and> h \<le> 23 \<and> mi \<le> 59
                             then Some (Some ((if c = CHR ''-'' then - 1 else 1)
                                              * (h * 3600000 + mi * 60000)))
                             else None)
                      else None))
          else None)"

text \<open>
  \<open>Date.parse\<close> of an engine that accepts the date time string format and nothing else
  (what an engine makes of any other string is its own choice, and NaN is one);
  \<open>utc\<close> takes a local time to its instant. It serves for the example runtimes below;
  no theorem about every runtime depends on it.
\<close>

definition Date_parse_iso :: "(int \<Rightarrow> int) \<Rightarrow> string \<Rightarrow> int option" where
  "Date_parse_iso utc s =
     (case read_date_part s of
        None \<Rightarrow> None
      | Some (z, r) \<Rightarrow>
          (case r of
             [] \<Rightarrow> Some (z * msPerDay)
           | c # r1 \<Rightarrow>
               if c = CHR ''T'' then
                 (case read_clock r1 of
                    None \<Rightarrow> None
                  | Some (ms, r2) \<Rightarrow>
                      (case read_zone r2 of
                         None \<Rightarrow> None
                       | Some None \<Rightarrow> Some (utc (z * msPerDay + ms))
                       | Some (Some off) \<Rightarrow> Some (z * msPerDay + ms - off)))
               else None))"

text \<open>
  A runtime with that \<open>Date.parse\<close> and a given time zone; one whose zone keeps one
  offset all year; and America/Los_Angeles with its two changes of 2024: eight hours west
  of UTC, seven from 2024-03-10T10:00Z (02:00 local, which becomes 03:00) to
  2024-11-03T09:00Z (02:00 local, which becomes 01:00). A local time that the change to
  daylight saving skips, or that the change back repeats, is read with the offset in force
  before the change.
\<close>

definition iso_runtime :: "int \<Rightarrow> (int \<Rightarrow> int) \<Rightarrow> (int \<Rightarrow> int) \<Rightarrow> runtime" where
  "iso_runtime base shift_utc shift_local =
     \<lparr>Date_parse = Date_parse_iso (\<lambda>l. l - (base + shift_local l mod msPerDay)),
      tz_base = base, tz_utc = shift_utc, tz_local = shift_local\<rparr>"

definition fixed_runtime :: "int \<Rightarrow> runtime" where
  "fixed_runtime off = iso_runtime off (\<lambda>t. 0) (\<lambda>l. 0)"

definition los_angeles_2024 :: runtime where
  "los_angeles_2024 =
     iso_runtime (- 28800000)
       (\<lambda>t. if 1710064800000 \<le> t \<and> t < 1730624400000 then 3600000 else 0)
       (\<lambda>l. if 1710039600000 \<le> l \<and> l < 1730599200000 then 3600000 else 0)"

section \<open>Plans, sessions and the store\<close>

text \<open>
  The fields of \<open>WorkoutPlan\<close> that \<open>generatePlanSessions\<close> reads (\<open>id\<close> is written
  \<open>id_plan\<close>), and the fields of the rows it builds. A field the object literal of a
  branch leaves out is \<open>None\<close>.
\<close>

record WorkoutPlan =
  id_plan :: string
  start_date :: string
  end_date :: string
  schedule_type :: string
  schedule_data :: jsval

record PlanSession =
  plan_id :: string
  template_id :: jsval
  scheduled_date :: jsval
  day_of_week :: "string option"
  week_number :: "int option"
  status :: string
  notes_field :: "jsval option"

text \<open>
  The table \<open>plan_sessions\<close> behind \<open>supabase.from('plan_sessions')\<close>, with a log of
  the batches submitted to it. How the store answers a batch is a parameter: it accepts
  the batch and appends its rows, it answers with an error and keeps its rows, or the call
  throws.
\<close>

record store =
  plan_sessions :: "PlanSession list"
  insert_calls :: "PlanSession list list"

datatype insert_reply = Accepted | Rejected | Threw

text \<open>\<open>await supabase.from('plan_sessions').insert(sessions)\<close>; the result is whether \<open>error\<close> is set.\<close>

definition insert_sessions ::
  "(PlanSession list \<Rightarrow> insert_reply) \<Rightarrow> PlanSession list \<Rightarrow> store \<Rightarrow> (exn + bool) \<times> store" where
  "insert_sessions reply batch db =
     (let db' = db\<lparr>insert_calls := insert_calls db @ [batch]\<rparr> in
      case reply batch of
        Accepted \<Rightarrow> (Inr False, db'\<lparr>plan_sessions := plan_sessions db @ batch\<rparr>)
      | Rejected \<Rightarrow> (Inr True, db')
      | Threw \<Rightarrow> (Inl InsertThrown, db'))"

section \<open>generatePlanSessions\<close>

text \<open>Lines 271 to 281: the body of the weekly loop before the date advances.\<close>

definition weekly_body ::
  "runtime \<Rightarrow> string \<Rightarrow> jsval \<Rightarrow> int option \<Rightarrow> PlanSession list \<Rightarrow> exn + PlanSession list" where
  "weekly_body rt pid weeklySchedule currentDate sessions =
     (let dayOfWeek = toLocaleDateString_weekday rt currentDate in
      case js_get weeklySchedule dayOfWeek of
        Inl x \<Rightarrow> Inl x
      | Inr v \<Rightarrow>
          if truthy v then
            (case toISOString currentDate of
               Inl x \<Rightarrow> Inl x
             | Inr isoStr \<Rightarrow>
                 Inr (sessions @
                   [\<lparr>plan_id = pid, template_id = v, scheduled_date = JStr (split_T_0 isoStr),
                     day_of_week = Some dayOfWeek, week_number = None,
                     status = ''scheduled'', notes_field = None\<rparr>]))
          else Inr sessions)"

text \<open>\<open>Math.ceil(currentDate.getDate() / 7)\<close>.\<close>

definition weekOfMonth_of :: "int option \<Rightarrow> int option" where
  "weekOfMonth_of dd = map_option (\<lambda>d. (d + 6) div 7) dd"

text \<open>Lines 291 to 303: the body of the monthly loop before the date advances.\<close>

definition monthly_body ::
  "runtime \<Rightarrow> string \<Rightarrow> jsval \<Rightarrow> int option \<Rightarrow> PlanSession list \<Rightarrow> exn + PlanSession list" where
  "monthly_body rt pid monthlySchedule currentDate sessions =
     (let weekOfMonth = weekOfMonth_of (getDate rt currentDate);
          dayOfWeek = toLocaleDateString_weekday rt currentDate in
      case (case weekOfMonth of
              None \<Rightarrow> js_get monthlySchedule ''NaN''
            | Some w \<Rightarrow> js_get_index monthlySchedule (nat w)) of
        Inl x \<Rightarrow> Inl x
      | Inr wk \<Rightarrow>
          if truthy wk then
            (case js_get wk dayOfWeek of
               Inl x \<Rightarrow> Inl x
             | Inr v \<Rightarrow>
                 if truthy v then
                   (case toISOString currentDate of
                      Inl x \<Rightarrow> Inl x
                    | Inr isoStr \<Rightarrow>
                        Inr (sessions @
                          [\<lparr>plan_id = pid, template_id = v, scheduled_date = JStr (split_T_0 isoStr),
                            day_of_week = Some dayOfWeek, week_number = weekOfMonth,
                            status = ''scheduled'', notes_field = None\<rparr>]))
                 else Inr sessions)
          else Inr sessions)"

text \<open>\<open>currentDate.setDate(currentDate.getDate() + 1)\<close> (lines 283 and 305).\<close>

definition advance :: "runtime \<Rightarrow> int option \<Rightarrow> int option" where
  "advance rt currentDate =
     setDate rt currentDate (map_option (\<lambda>d. d + 1) (getDate rt currentDate))"

text \<open>The time the walk has left, in milliseconds and one more: what each iteration decreases.\<close>

definition time_left :: "int option \<Rightarrow> int option \<Rightarrow> nat" where
  "time_left c e = (case (c, e) of (Some t, Some u) \<Rightarrow> nat (u - t + 1) | _ \<Rightarrow> 0)"

section \<open>Calendar facts\<close>

text \<open>
  The day number is recovered from the civil date, so advancing the day of the month by
  one moves the local time on by exactly one day. The instant that local time is read as
  lies later than the one before, by less than two days, whatever the time zone does.
\<close>

lemma civil_fields:
  fixes z :: int
  defines "doe \<equiv> (z + 719468) mod 146097"
  defines "cent \<equiv> min 3 (doe div 36524)"
  defines "doc \<equiv> doe - cent * 36524"
  defines "q \<equiv> min 24 (doc div 1461)"
  defines "doq \<equiv> doc - q * 1461"
  defines "yr \<equiv> min 3 (doq div 365)"
  defines "doy \<equiv> doq - yr * 365"
  shows "0 \<le> cent \<and> cent \<le> 3 \<and> 0 \<le> q \<and> q \<le> 24 \<and> 0 \<le> yr \<and> yr \<le> 3 \<and> 0 \<le> doy \<and> doy \<le> 365
    \<and> doe = cent * 36524 + q * 1461 + yr * 365 + doy"
proof -
  have doe: "0 \<le> doe" "doe < 146097" by (simp_all add: doe_def)
  have cent: "0 \<le> cent" "cent \<le> 3" using doe by (simp_all add: cent_def)
  have doc: "0 \<le> doc" "doc \<le> 36524" using doe unfolding doc_def cent_def by (simp_all add: min_def) arith+
  have q: "0 \<le> q" "q \<le> 24" using doc by (simp_all add: q_def)
  have doq: "0 \<le> doq" "doq \<le> 1460" using doc unfolding doq_def q_def by (simp_all add: min_def) arith+
  have yr: "0 \<le> yr" "yr \<le> 3" using doq by (simp_all add: yr_def)
  have doy: "0 \<le> doy" "doy \<le> 365" using doq unfolding doy_def yr_def by (simp_all add: min_def) arith+
  show ?thesis using cent q yr doy by (simp add: doy_def doq_def doc_def)
qed

lemma div_unique_int: "0 \<le> r \<Longrightarrow> r < k \<Longrightarrow> (a * k + r) div k = (a::int)"
  by simp

lemma month_fields:
  fixes doy :: int
  assumes "0 \<le> doy" "doy \<le> 365"
  defines "mp \<equiv> (5 * doy + 2) div 153"
  shows "0 \<le> mp \<and> mp \<le> 11 \<and> 1 \<le> doy - (153 * mp + 2) div 5 + 1 \<and> doy - (153 * mp + 2) div 5 + 1 \<le> 31"
proof -
  define r where "r = (5 * doy + 2) mod 153"
  define b where "b = (153 * mp + 2) div 5"
  define s where "s = (153 * mp + 2) mod 5"
  have 1: "5 * doy + 2 = 153 * mp + r" "0 \<le> r" "r < 153"
    by (simp_all add: mp_def r_def)
  have 2: "153 * mp + 2 = 5 * b + s" "0 \<le> s" "s < 5"
    by (simp_all add: b_def s_def)
  have "0 \<le> mp" "mp \<le> 11" using 1 assms(1,2) by linarith+
  moreover have "b \<le> doy" "doy \<le> b + 30" using 1 2 by linarith+
  ultimately show ?thesis by (simp add: b_def)
qed

lemma civil_from_days_range:
  assumes "civil_from_days z = (y, m, d)"
  shows "1 \<le> m \<and> m \<le> 12 \<and> 1 \<le> d \<and> d \<le> 31"
proof -
  define doe where "doe = (z + 719468) mod 146097"
  define cent where "cent = min 3 (doe div 36524)"
  define doc where "doc = doe - cent * 36524"
  define q where "q = min 24 (doc div 1461)"
  define doq where "doq = doc - q * 1461"
  define yr where "yr = min 3 (doq div 365)"
  define doy where "doy = doq - yr * 365"
  define mp where "mp = (5 * doy + 2) div 153"
  note defs = doe_def cent_def doc_def q_def doq_def yr_def doy_def mp_def
  have f: "0 \<le> doy \<and> doy \<le> 365"
    using civil_fields [of z] unfolding defs by blast
  have g: "0 \<le> mp \<and> mp \<le> 11 \<and> 1 \<le> doy - (153 * mp + 2) div 5 + 1 \<and> doy - (153 * mp + 2) div 5 + 1 \<le> 31"
    using month_fields [of doy] f unfolding mp_def by blast
  have "snd (civil_from_days z) =
      (if mp < 10 then mp + 3 else mp - 9, doy - (153 * mp + 2) div 5 + 1)"
    unfolding civil_from_days_def Let_def defs snd_conv ..
  then have m: "m = (if mp < 10 then mp + 3 else mp - 9)" and d: "d = doy - (153 * mp + 2) div 5 + 1"
    using assms by simp_all
  show ?thesis using g unfolding m d by auto
qed

lemma days_from_civil_inverse:
  assumes "civil_from_days z = (y, m, d)"
  shows "days_from_civil y m d = z"
proof -
  define era where "era = (z + 719468) div 146097"
  define doe where "doe = (z + 719468) mod 146097"
  define cent where "cent = min 3 (doe div 36524)"
  define doc where "doc = doe - cent * 36524"
  define q where "q = min 24 (doc div 1461)"
  define doq where "doq = doc - q * 1461"
  define yr where "yr = min 3 (doq div 365)"
  define doy where "doy = doq - yr * 365"
  define mp where "mp = (5 * doy + 2) div 153"
  define yoe where "yoe = cent * 100 + q * 4 + yr"
  note defs = era_def doe_def cent_def doc_def q_def doq_def yr_def doy_def mp_def yoe_def
  have f: "0 \<le> cent \<and> cent \<le> 3 \<and> 0 \<le> q \<and> q \<le> 24 \<and> 0 \<le> yr \<and> yr \<le> 3 \<and> 0 \<le> doy \<and> doy \<le> 365
    \<and> doe = cent * 36524 + q * 1461 + yr * 365 + doy"
    using civil_fields [of z] unfolding defs by blast
  have g: "0 \<le> mp \<and> mp \<le> 11"
    using month_fields [of doy] f unfolding mp_def by blast
  have "civil_from_days z =
      (era * 400 + yoe + (if (if mp < 10 then mp + 3 else mp - 9) \<le> 2 then 1 else 0),
       if mp < 10 then mp + 3 else mp - 9, doy - (153 * mp + 2) div 5 + 1)"
    unfolding civil_from_days_def Let_def defs ..
  then have m: "m = (if mp < 10 then mp + 3 else mp - 9)"
    and d: "d = doy - (153 * mp + 2) div 5 + 1"
    and y: "y = era * 400 + yoe + (if m \<le> 2 then 1 else 0)"
    using assms by simp_all
  have z: "z + 719468 = era * 146097 + doe"
    by (simp add: era_def doe_def)
  have yoe: "0 \<le> yoe" "yoe < 400" using f by (simp_all add: yoe_def)
  have y': "(if m \<le> 2 then y - 1 else y) = era * 400 + yoe" using y by simp
  have e1: "(era * 400 + yoe) div 400 = era" using yoe by simp
  have e2: "(era * 400 + yoe) mod 400 = yoe" using yoe by simp
  have mp': "(if m > 2 then m - 3 else m + 9) = mp" using m g by auto
  have "yoe = (cent * 25 + q) * 4 + yr" by (simp add: yoe_def)
  then have y4: "yoe div 4 = cent * 25 + q"
    using f div_unique_int [of yr 4 "cent * 25 + q"] by simp
  have "yoe = cent * 100 + (q * 4 + yr)" by (simp add: yoe_def)
  then have y100: "yoe div 100 = cent"
    using f div_unique_int [of "q * 4 + yr" 100 cent] by simp
  have "days_from_civil y m d = era * 146097 + (yoe * 365 + yoe div 4 - yoe div 100 + ((153 * mp + 2) div 5 + d - 1)) - 719468"
    unfolding days_from_civil_def Let_def y' mp' e1 e2 by simp
  also have "\<dots> = era * 146097 + doe - 719468"
    unfolding y4 y100 d using f by (simp add: yoe_def)
  also have "\<dots> = z" using z by simp
  finally show ?thesis .
qed

lemma days_from_civil_succ: "days_from_civil y m (d + 1) = days_from_civil y m d + 1"
  by (simp add: days_from_civil_def Let_def)

lemma msPerDay_pos: "0 < msPerDay"
  by (simp add: msPerDay_def)

lemma LocalTZA_bounds: "tz_base rt \<le> LocalTZA rt t u \<and> LocalTZA rt t u < tz_base rt + msPerDay"
  using pos_mod_sign [OF msPerDay_pos] pos_mod_bound [OF msPerDay_pos]
  by (simp add: LocalTZA_def)

lemma advance_Some: "advance rt (Some t) = TimeClip (UTC rt (LocalTime rt t + msPerDay))"
proof -
  obtain y m d where c: "civil_from_days (Day (LocalTime rt t)) = (y, m, d)"
    by (metis prod_cases3)
  have n: "days_from_civil y m (d + 1) = Day (LocalTime rt t) + 1"
    using days_from_civil_inverse [OF c] by (simp add: days_from_civil_succ)
  have w: "Day (LocalTime rt t) * msPerDay + TimeWithinDay (LocalTime rt t) = LocalTime rt t"
    by (simp add: Day_def TimeWithinDay_def)
  have "advance rt (Some t) =
      TimeClip (UTC rt (days_from_civil y m (d + 1) * msPerDay + TimeWithinDay (LocalTime rt t)))"
    by (simp add: advance_def setDate_def getDate_def c Let_def)
  also have "\<dots> = TimeClip (UTC rt (LocalTime rt t + msPerDay))"
    using w unfolding n by (simp add: algebra_simps)
  finally show ?thesis .
qed

lemma advance_None: "advance rt None = None"
  by (simp add: advance_def setDate_def getDate_def)

lemma UTC_next_day: "t < UTC rt (LocalTime rt t + msPerDay) \<and> UTC rt (LocalTime rt t + msPerDay) < t + 2 * msPerDay"
  using LocalTZA_bounds [of rt t True] LocalTZA_bounds [of rt "LocalTime rt t + msPerDay" False]
  by (simp add: UTC_def LocalTime_def)

lemma advance_later: "advance rt (Some t) = Some t' \<Longrightarrow> t < t' \<and> t' < t + 2 * msPerDay"
  using UTC_next_day [of t rt] by (auto simp: advance_Some TimeClip_def split: if_splits)

lemma advance_decreases: "date_le c e \<Longrightarrow> time_left (advance rt c) e < time_left c e"
proof -
  assume "date_le c e"
  then obtain t u where c: "c = Some t" and e: "e = Some u" and le: "t \<le> u"
    by (auto simp: date_le_def split: option.splits)
  show ?thesis
  proof (cases "advance rt (Some t)")
    case None
    then show ?thesis using le by (simp add: time_left_def c e)
  next
    case (Some t')
    then have "t < t'" using advance_later by blast
    then show ?thesis using le Some by (simp add: time_left_def c e)
  qed
qed

section \<open>The day walk\<close>

text \<open>
  Lines 270 to 284: \<open>while (currentDate <= endDate) { ...; currentDate.setDate(...) }\<close>.
  An exception in the body leaves the loop. The distance to \<open>endDate\<close> shrinks with
  every iteration (\<open>advance_decreases\<close>).
\<close>

function (domintros) weekly_loop ::
  "runtime \<Rightarrow> string \<Rightarrow> jsval \<Rightarrow> int option \<Rightarrow> int option \<Rightarrow> PlanSession list
   \<Rightarrow> exn + PlanSession list" where
  "weekly_loop rt pid weeklySchedule currentDate endDate sessions =
     (if date_le currentDate endDate then
        (case weekly_body rt pid weeklySchedule currentDate sessions of
           Inl x \<Rightarrow> Inl x
         | Inr sessions' \<Rightarrow>
             weekly_loop rt pid weeklySchedule (advance rt currentDate) endDate sessions')
      else Inr sessions)"
  by pat_completeness auto

lemma weekly_loop_total: "weekly_loop_dom (rt, pid, sched, c, e, acc)"
proof (induction "time_left c e" arbitrary: c acc rule: less_induct)
  case less
  show ?case
  proof (rule weekly_loop.domintros)
    fix acc'
    assume "date_le c e"
    then have "time_left (advance rt c) e < time_left c e" by (rule advance_decreases)
    then show "weekly_loop_dom (rt, pid, sched, advance rt c, e, acc')" by (rule less)
  qed
qed

termination weekly_loop
  by (simp add: weekly_loop_total)

declare weekly_loop.simps [simp del]

text \<open>Lines 290 to 306: the same walk with the monthly body.\<close>

function (domintros) monthly_loop ::
  "runtime \<Rightarrow> string \<Rightarrow> jsval \<Rightarrow> int option \<Rightarrow> int option \<Rightarrow> PlanSession list
   \<Rightarrow> exn + PlanSession list" where
  "monthly_loop rt pid monthlySchedule currentDate endDate sessions =
     (if date_le currentDate endDate then
        (case monthly_body rt pid monthlySchedule currentDate sessions of
           Inl x \<Rightarrow> Inl x
         | Inr sessions' \<Rightarrow>
             monthly_loop rt pid monthlySchedule (advance rt currentDate) endDate sessions')
      else Inr sessions)"
  by pat_completeness auto

lemma monthly_loop_total: "monthly_loop_dom (rt, pid, sched, c, e, acc)"
proof (induction "time_left c e" arbitrary: c acc rule: less_induct)
  case less
  show ?case
  proof (rule monthly_loop.domintros)
    fix acc'
    assume "date_le c e"
    then have "time_left (advance rt c) e < time_left c e" by (rule advance_decreases)
    then show "monthly_loop_dom (rt, pid, sched, advance rt c, e, acc')" by (rule less)
  qed
qed

termination monthly_loop
  by (simp add: monthly_loop_total)

declare monthly_loop.simps [simp del]

text \<open>Lines 313 to 321: the callback of \<open>customSchedule.forEach\<close>.\<close>

definition custom_body :: "string \<Rightarrow> jsval \<Rightarrow> PlanSession list \<Rightarrow> exn + PlanSession list" where
  "custom_body pid customDay sessions =
     (case js_get customDay ''date'' of
        Inl x \<Rightarrow> Inl x
      | Inr dv \<Rightarrow>
          if truthy dv then
            (case js_get customDay ''templateId'' of
               Inl x \<Rightarrow> Inl x
             | Inr tv \<Rightarrow>
                 if truthy tv then
                   (case js_get customDay ''label'' of
                      Inl x \<Rightarrow> Inl x
                    | Inr lv \<Rightarrow>
                        Inr (sessions @
                          [\<lparr>plan_id = pid, template_id = tv, scheduled_date = dv,
                            day_of_week = None, week_number = None,
                            status = ''scheduled'', notes_field = Some lv\<rparr>]))
                 else Inr sessions)
          else Inr sessions)"

fun forEach_custom :: "string \<Rightarrow> jsval list \<Rightarrow> PlanSession list \<Rightarrow> exn + PlanSession list" where
  "forEach_custom pid [] sessions = Inr sessions"
| "forEach_custom pid (customDay # rest) sessions =
     (case custom_body pid customDay sessions of
        Inl x \<Rightarrow> Inl x
      | Inr sessions' \<Rightarrow> forEach_custom pid rest sessions')"

text \<open>Lines 261 to 324: the sessions built inside the \<open>try\<close> block, or the exception thrown there.\<close>

definition build_sessions :: "runtime \<Rightarrow> WorkoutPlan \<Rightarrow> exn + PlanSession list" where
  "build_sessions rt plan =
     (let startDate = new_Date rt (start_date plan);
          endDate = new_Date rt (end_date plan) in
      if schedule_type plan = ''weekly'' then
        weekly_loop rt (id_plan plan) (schedule_data plan) startDate endDate []
      else if schedule_type plan = ''monthly'' then
        monthly_loop rt (id_plan plan) (schedule_data plan) startDate endDate []
      else if schedule_type plan = ''custom'' then
        (case schedule_data plan of
           JArr customSchedule \<Rightarrow> forEach_custom (id_plan plan) customSchedule []
         | _ \<Rightarrow> Inr [])
      else Inr [])"

text \<open>
  Lines 259 to 343. The \<open>catch\<close> turns every exception of the \<open>try\<close> block into the
  result \<open>false\<close>; the batch is submitted only when it is not empty.
\<close>

definition generatePlanSessions ::
  "runtime \<Rightarrow> (PlanSession list \<Rightarrow> insert_reply) \<Rightarrow> WorkoutPlan \<Rightarrow> store \<Rightarrow> bool \<times> store" where
  "generatePlanSessions rt reply plan db =
     (case build_sessions rt plan of
        Inl x \<Rightarrow> (False, db)
      | Inr sessions \<Rightarrow>
          if length sessions > 0 then
            (case insert_sessions reply sessions db of
               (Inl x, db') \<Rightarrow> (False, db')
             | (Inr err, db') \<Rightarrow> if err then (False, db') else (True, db'))
          else (True, db))"

text \<open>
  \<open>deletePlanSessions\<close> (src/lib/planDatabase.ts, lines 280 to 297): the rows of the plan
  are deleted and the result is \<open>true\<close>, or the store answers with an error or throws and
  the result is \<open>false\<close>.
\<close>

definition deletePlanSessions :: "insert_reply \<Rightarrow> string \<Rightarrow> store \<Rightarrow> bool \<times> store" where
  "deletePlanSessions reply planId db =
     (case reply of
        Accepted \<Rightarrow> (True, db\<lparr>plan_sessions := filter (\<lambda>x. plan_id x \<noteq> planId) (plan_sessions db)\<rparr>)
      | Rejected \<Rightarrow> (False, db)
      | Threw \<Rightarrow> (False, db))"

section \<open>Rows, orders and example plans\<close>

text \<open>The row each branch pushes, as a function of the values that vary.\<close>

definition weekly_row :: "string \<Rightarrow> jsval \<Rightarrow> string \<Rightarrow> string \<Rightarrow> PlanSession" where
  "weekly_row pid v date dow =
     \<lparr>plan_id = pid, template_id = v, scheduled_date = JStr date, day_of_week = Some dow,
      week_number = None, status = ''scheduled'', notes_field = None\<rparr>"

definition monthly_row :: "string \<Rightarrow> jsval \<Rightarrow> string \<Rightarrow> string \<Rightarrow> int \<Rightarrow> PlanSession" where
  "monthly_row pid v date dow w =
     \<lparr>plan_id = pid, template_id = v, scheduled_date = JStr date, day_of_week = Some dow,
      week_number = Some w, status = ''scheduled'', notes_field = None\<rparr>"

definition custom_row :: "string \<Rightarrow> jsval \<Rightarrow> jsval \<Rightarrow> jsval \<Rightarrow> PlanSession" where
  "custom_row pid v date label =
     \<lparr>plan_id = pid, template_id = v, scheduled_date = date, day_of_week = None,
      week_number = None, status = ''scheduled'', notes_field = Some label\<rparr>"

text \<open>
  A custom entry counts when both \<open>date\<close> and \<open>templateId\<close> are truthy; the row it
  gives copies \<open>templateId\<close>, \<open>date\<close> and \<open>label\<close>.
\<close>

definition entry_set :: "jsval \<Rightarrow> bool" where
  "entry_set e = (truthy (own_prop e ''date'') \<and> truthy (own_prop e ''templateId''))"

definition entry_row :: "string \<Rightarrow> jsval \<Rightarrow> PlanSession" where
  "entry_row pid e =
     custom_row pid (own_prop e ''templateId'') (own_prop e ''date'') (own_prop e ''label'')"

text \<open>The sessions a call builds; none when the expansion throws.\<close>

definition matching :: "runtime \<Rightarrow> WorkoutPlan \<Rightarrow> PlanSession list" where
  "matching rt plan = (case build_sessions rt plan of Inl x \<Rightarrow> [] | Inr sessions \<Rightarrow> sessions)"

text \<open>A store that accepts every batch.\<close>

definition accept_all :: "PlanSession list \<Rightarrow> insert_reply" where
  "accept_all batch = Accepted"

text \<open>The plans of the testable properties 1, 3 and 4 of the specification.\<close>

definition weekly_example :: WorkoutPlan where
  "weekly_example =
     \<lparr>id_plan = ''P'', start_date = ''2024-01-01'', end_date = ''2024-01-14'',
      schedule_type = ''weekly'',
      schedule_data = JObj [(''Monday'', JStr ''T1''), (''Wednesday'', JStr ''T2'')]\<rparr>"

definition monthly_example :: WorkoutPlan where
  "monthly_example =
     \<lparr>id_plan = ''P'', start_date = ''2024-03-01'', end_date = ''2024-03-31'',
      schedule_type = ''monthly'',
      schedule_data = JObj [(''1'', JObj [(''Friday'', JStr ''T1'')])]\<rparr>"

definition custom_example :: WorkoutPlan where
  "custom_example =
     \<lparr>id_plan = ''P'', start_date = ''2024-01-01'', end_date = ''2024-01-14'',
      schedule_type = ''custom'',
      schedule_data = JArr [JObj [(''date'', JStr ''2024-05-05''), (''templateId'', JStr ''X''),
                                  (''label'', JStr ''Cheat day'')]]\<rparr>"

definition empty_store :: store where
  "empty_store = \<lparr>plan_sessions = [], insert_calls = []\<rparr>"

text \<open>Eight hours west of UTC, and five and a half hours east of it, in milliseconds.\<close>

definition utc_minus_8 :: int where
  "utc_minus_8 = - 28800000"

definition utc_plus_5_30 :: int where
  "utc_plus_5_30 = 19800000"

text \<open>Plans with a payload the data model does not describe, and one with its dates reversed.\<close>

definition null_entry_example :: WorkoutPlan where
  "null_entry_example =
     \<lparr>id_plan = ''P'', start_date = ''2024-01-01'', end_date = ''2024-01-14'',
      schedule_type = ''custom'',
      schedule_data = JArr [JNull, JObj [(''date'', JStr ''2024-05-05''), (''templateId'', JStr ''X''),
                                  (''label'', JStr ''Cheat day'')]]\<rparr>"

definition null_schedule_example :: WorkoutPlan where
  "null_schedule_example =
     \<lparr>id_plan = ''P'', start_date = ''2024-01-01'', end_date = ''2024-01-14'',
      schedule_type = ''weekly'', schedule_data = JNull\<rparr>"

definition reversed_example :: WorkoutPlan where
  "reversed_example =
     \<lparr>id_plan = ''P'', start_date = ''2024-01-14'', end_date = ''2024-01-01'',
      schedule_type = ''weekly'',
      schedule_data = JObj [(''Monday'', JStr ''T1''), (''Wednesday'', JStr ''T2'')]\<rparr>"

text \<open>
  Two weekly plans across the change to daylight saving time of 2024-03-10, a Sunday, one
  with the weekend mapped and one with every weekday, and a plan with no payload whose
  dates are written with a time.
\<close>

definition dst_example :: WorkoutPlan where
  "dst_example =
     \<lparr>id_plan = ''P'', start_date = ''2024-03-08'', end_date = ''2024-03-12'',
      schedule_type = ''weekly'',
      schedule_data = JObj [(''Saturday'', JStr ''T1''), (''Sunday'', JStr ''T2'')]\<rparr>"

definition every_day_example :: WorkoutPlan where
  "every_day_example =
     \<lparr>id_plan = ''P'', start_date = ''2024-03-08'', end_date = ''2024-03-12'',
      schedule_type = ''weekly'',
      schedule_data = JObj [(''Sunday'', JStr ''T''), (''Monday'', JStr ''T''),
        (''Tuesday'', JStr ''T''), (''Wednesday'', JStr ''T''), (''Thursday'', JStr ''T''),
        (''Friday'', JStr ''T''), (''Saturday'', JStr ''T'')]\<rparr>"

definition timestamp_example :: WorkoutPlan where
  "timestamp_example =
     \<lparr>id_plan = ''P'', start_date = ''2024-01-01T00:00:00.000Z'',
      end_date = ''2024-01-14T00:00:00.000Z'',
      schedule_type = ''weekly'', schedule_data = JNull\<rparr>"

text \<open>What holds of every row a branch pushes.\<close>

definition weekly_inv :: "string \<Rightarrow> PlanSession \<Rightarrow> bool" where
  "weekly_inv pid x = (status x = ''scheduled'' \<and> plan_id x = pid \<and> day_of_week x \<noteq> None
     \<and> week_number x = None \<and> notes_field x = None)"

definition monthly_inv :: "string \<Rightarrow> PlanSession \<Rightarrow> bool" where
  "monthly_inv pid x = (status x = ''scheduled'' \<and> plan_id x = pid \<and> day_of_week x \<noteq> None
     \<and> week_number x \<noteq> None \<and> notes_field x = None)"

definition custom_inv :: "string \<Rightarrow> PlanSession \<Rightarrow> bool" where
  "custom_inv pid x = (status x = ''scheduled'' \<and> plan_id x = pid \<and> day_of_week x = None
     \<and> week_number x = None)"

text \<open>The rows one iteration of each walk pushes at the instant \<open>t\<close>, for a payload that is not \<open>undefined\<close> or \<open>null\<close>.\<close>

definition weekly_rows :: "runtime \<Rightarrow> string \<Rightarrow> jsval \<Rightarrow> int \<Rightarrow> PlanSession list" where
  "weekly_rows rt pid sched t =
     (let dow = toLocaleDateString_weekday rt (Some t);
          v = own_prop sched dow
      in if truthy v then [weekly_row pid v (iso_date t) dow] else [])"

definition local_day_of_month :: "runtime \<Rightarrow> int \<Rightarrow> int" where
  "local_day_of_month rt t = (case civil_from_days (Day (LocalTime rt t)) of (y, m, dd) \<Rightarrow> dd)"

definition monthly_rows :: "runtime \<Rightarrow> string \<Rightarrow> jsval \<Rightarrow> int \<Rightarrow> PlanSession list" where
  "monthly_rows rt pid sched t =
     (let w = (local_day_of_month rt t + 6) div 7;
          dow = toLocaleDateString_weekday rt (Some t);
          wk = own_index sched (nat w);
          v = own_prop wk dow
      in if truthy wk \<and> truthy v then [monthly_row pid v (iso_date t) dow w] else [])"

text \<open>
  The calendar day a \<open>scheduled_date\<close> names, as a day number; the chronological order
  of two \<open>scheduled_date\<close> values, a day not after another; and a day lying from the day
  of the plan's \<open>start_date\<close> to the day of its \<open>end_date\<close>.
\<close>

definition read_date :: "string \<Rightarrow> int option" where
  "read_date s = (case read_date_part s of None \<Rightarrow> None | Some (z, r) \<Rightarrow> if r = [] then Some z else None)"

definition date_not_after :: "jsval \<Rightarrow> jsval \<Rightarrow> bool" where
  "date_not_after a b =
     (case (a, b) of
        (JStr x, JStr y) \<Rightarrow>
          (case (read_date x, read_date y) of (Some t, Some u) \<Rightarrow> t \<le> u | _ \<Rightarrow> False)
      | _ \<Rightarrow> False)"

definition within_range :: "runtime \<Rightarrow> WorkoutPlan \<Rightarrow> jsval \<Rightarrow> bool" where
  "within_range rt p a =
     (case a of
        JStr x \<Rightarrow>
          (case (new_Date rt (start_date p), read_date x, new_Date rt (end_date p)) of
             (Some s, Some z, Some e) \<Rightarrow> Day s \<le> z \<and> z \<le> Day e
           | _ \<Rightarrow> False)
      | _ \<Rightarrow> False)"

text \<open>
  A weekly row carries the template the payload maps to the row's own \<open>day_of_week\<close>, a
  monthly row the one it maps to the row's own \<open>week_number\<close> and \<open>day_of_week\<close>.
\<close>

definition weekly_mapped :: "jsval \<Rightarrow> PlanSession \<Rightarrow> bool" where
  "weekly_mapped sched x =
     (case day_of_week x of
        None \<Rightarrow> False
      | Some dow \<Rightarrow>
          dow \<in> set weekday_names \<and> truthy (own_prop sched dow)
          \<and> template_id x = own_prop sched dow)"

definition monthly_mapped :: "jsval \<Rightarrow> PlanSession \<Rightarrow> bool" where
  "monthly_mapped sched x =
     (case (week_number x, day_of_week x) of
        (Some w, Some dow) \<Rightarrow>
          1 \<le> w \<and> w \<le> 5 \<and> dow \<in> set weekday_names
          \<and> truthy (own_prop (own_index sched (nat w)) dow)
          \<and> template_id x = own_prop (own_index sched (nat w)) dow
      | _ \<Rightarrow> False)"

text \<open>
  The dates of the rows are the ISO dates of the instants \<open>ts\<close>, which ascend, lie from
  \<open>s\<close> to \<open>e\<close>, and before \<open>c\<close> when that is a valid date.
\<close>

definition dated :: "int \<Rightarrow> int \<Rightarrow> int option \<Rightarrow> int list \<Rightarrow> PlanSession list \<Rightarrow> bool" where
  "dated s e c ts acc =
     (map scheduled_date acc = map (\<lambda>x. JStr (iso_date x)) ts \<and> sorted_wrt (<) ts
      \<and> list_all (\<lambda>x. s \<le> x \<and> x \<le> e \<and> (case c of None \<Rightarrow> True | Some t \<Rightarrow> x < t)) ts)"

text \<open>
  Calendar days by number: the English weekday name of day \<open>z\<close>, its \<open>YYYY-MM-DD\<close>
  string and its day of the month; the rows a walk pushes at midnight UTC of day \<open>z\<close>
  when the local date there is day \<open>l\<close>; and that local day.
\<close>

definition weekday_of_day :: "int \<Rightarrow> string" where
  "weekday_of_day z = weekday_names ! nat ((z + 4) mod 7)"

definition day_str :: "int \<Rightarrow> string" where
  "day_str z = iso_date (z * msPerDay)"

definition day_of_month :: "int \<Rightarrow> int" where
  "day_of_month z = (case civil_from_days z of (y, m, dd) \<Rightarrow> dd)"

definition weekly_day :: "string \<Rightarrow> jsval \<Rightarrow> int \<Rightarrow> int \<Rightarrow> PlanSession list" where
  "weekly_day pid sched l z =
     (let dow = weekday_of_day l; v = own_prop sched dow
      in if truthy v then [weekly_row pid v (day_str z) dow] else [])"

definition monthly_day :: "string \<Rightarrow> jsval \<Rightarrow> int \<Rightarrow> int \<Rightarrow> PlanSession list" where
  "monthly_day pid sched l z =
     (let w = (day_of_month l + 6) div 7; dow = weekday_of_day l;
          wk = own_index sched (nat w); v = own_prop wk dow
      in if truthy wk \<and> truthy v then [monthly_row pid v (day_str z) dow w] else [])"

text \<open>
  The sessions the specification describes for a weekly plan whose range is the days
  \<open>zs\<close> to \<open>ze\<close>: for each day, in order, the row of the day's own weekday when the
  payload maps it. The same for a monthly plan, with the day's own day of the month.
\<close>

definition spec_weekly_sessions :: "WorkoutPlan \<Rightarrow> int \<Rightarrow> int \<Rightarrow> PlanSession list" where
  "spec_weekly_sessions p zs ze =
     concat (map (\<lambda>d. weekly_day (id_plan p) (schedule_data p) d d) [zs..ze])"

definition spec_monthly_sessions :: "WorkoutPlan \<Rightarrow> int \<Rightarrow> int \<Rightarrow> PlanSession list" where
  "spec_monthly_sessions p zs ze =
     concat (map (\<lambda>d. monthly_day (id_plan p) (schedule_data p) d d) [zs..ze])"

definition local_day :: "runtime \<Rightarrow> int \<Rightarrow> int" where
  "local_day rt z = Day (LocalTime rt (z * msPerDay))"

text \<open>A plan whose start date is not a date.\<close>

definition invalid_date_example :: WorkoutPlan where
  "invalid_date_example =
     \<lparr>id_plan = ''P'', start_date = ''soon'', end_date = ''2024-01-14'',
      schedule_type = ''weekly'',
      schedule_data = JObj [(''Monday'', JStr ''T1''), (''Wednesday'', JStr ''T2'')]\<rparr>"

text \<open>Custom plans whose entries are out of order, and on the same day.\<close>

definition unordered_example :: WorkoutPlan where
  "unordered_example =
     \<lparr>id_plan = ''P'', start_date = ''2024-01-01'', end_date = ''2024-12-31'',
      schedule_type = ''custom'',
      schedule_data = JArr [JObj [(''date'', JStr ''2024-05-05''), (''templateId'', JStr ''X'')],
                            JObj [(''date'', JStr ''2024-01-01''), (''templateId'', JStr ''Y'')]]\<rparr>"

definition duplicate_example :: WorkoutPlan where
  "duplicate_example =
     \<lparr>id_plan = ''P'', start_date = ''2024-01-01'', end_date = ''2024-12-31'',
      schedule_type = ''custom'',
      schedule_data = JArr [JObj [(''date'', JStr ''2024-05-05''), (''templateId'', JStr ''X'')],
                            JObj [(''date'', JStr ''2024-05-05''), (''templateId'', JStr ''Y'')]]\<rparr>"

section \<open>Facts about the loops\<close>

text \<open>
  A loop whose guard is false returns what it has. A body throws exactly when the payload
  is \<open>undefined\<close> or \<open>null\<close>, so a walk throws exactly when it runs at least once
  on such a payload.
\<close>

lemma date_le_Some: "date_le (Some t) (Some u) = (t \<le> u)"
  by (simp add: date_le_def)

lemma date_le_cases: "date_le c e \<Longrightarrow> \<exists>t u. c = Some t \<and> e = Some u \<and> t \<le> u"
  by (auto simp: date_le_def split: option.splits)

lemma weekly_loop_stop: "\<not> date_le c e \<Longrightarrow> weekly_loop rt pid sched c e acc = Inr acc"
  by (subst weekly_loop.simps) simp

lemma monthly_loop_stop: "\<not> date_le c e \<Longrightarrow> monthly_loop rt pid sched c e acc = Inr acc"
  by (subst monthly_loop.simps) simp

lemma toISOString_Some: "\<exists>s. toISOString (Some t) = Inr s"
  by (simp add: toISOString_def Let_def split: prod.splits)

lemma weekly_body_nullish:
  "nullish sched \<Longrightarrow> weekly_body rt pid sched c acc = Inl TypeError"
  by (simp add: weekly_body_def js_get_def)

lemma monthly_body_nullish:
  "nullish sched \<Longrightarrow> monthly_body rt pid sched c acc = Inl TypeError"
  by (simp add: monthly_body_def js_get_def js_get_index_def Let_def split: option.splits)

lemma truthy_not_nullish: "truthy v \<Longrightarrow> \<not> nullish v"
  by (auto simp: nullish_def)

lemma weekly_body_ok:
  "\<not> nullish sched \<Longrightarrow> \<exists>r. weekly_body rt pid sched (Some t) acc = Inr (acc @ r)"
  using toISOString_Some [of t]
  by (auto simp: weekly_body_def js_get_def Let_def)

lemma monthly_body_ok:
  "\<not> nullish sched \<Longrightarrow> \<exists>r. monthly_body rt pid sched (Some t) acc = Inr (acc @ r)"
  using toISOString_Some [of t]
  by (auto simp: monthly_body_def js_get_def js_get_index_def Let_def truthy_not_nullish
      getDate_def weekOfMonth_of_def split: prod.splits)

lemma weekly_loop_no_throw:
  "\<not> nullish sched \<Longrightarrow> \<exists>r. weekly_loop rt pid sched c e acc = Inr r"
proof (induction rt pid sched c e acc rule: weekly_loop.induct)
  case (1 rt pid sched c e acc)
  show ?case
  proof (cases "date_le c e")
    case False
    then show ?thesis by (simp add: weekly_loop_stop)
  next
    case True
    then obtain t where c: "c = Some t" using date_le_cases by blast
    obtain r where b: "weekly_body rt pid sched c acc = Inr (acc @ r)"
      using weekly_body_ok [OF "1.prems"] c by blast
    show ?thesis
      using "1.IH" [OF True b "1.prems"] True b by (subst weekly_loop.simps) simp
  qed
qed

lemma monthly_loop_no_throw:
  "\<not> nullish sched \<Longrightarrow> \<exists>r. monthly_loop rt pid sched c e acc = Inr r"
proof (induction rt pid sched c e acc rule: monthly_loop.induct)
  case (1 rt pid sched c e acc)
  show ?case
  proof (cases "date_le c e")
    case False
    then show ?thesis by (simp add: monthly_loop_stop)
  next
    case True
    then obtain t where c: "c = Some t" using date_le_cases by blast
    obtain r where b: "monthly_body rt pid sched c acc = Inr (acc @ r)"
      using monthly_body_ok [OF "1.prems"] c by blast
    show ?thesis
      using "1.IH" [OF True b "1.prems"] True b by (subst monthly_loop.simps) simp
  qed
qed

lemma weekly_loop_throw:
  "nullish sched \<Longrightarrow> date_le c e \<Longrightarrow> weekly_loop rt pid sched c e acc = Inl TypeError"
  by (subst weekly_loop.simps) (simp add: weekly_body_nullish)

lemma monthly_loop_throw:
  "nullish sched \<Longrightarrow> date_le c e \<Longrightarrow> monthly_loop rt pid sched c e acc = Inl TypeError"
  by (subst monthly_loop.simps) (simp add: monthly_body_nullish)

lemma weekly_loop_Inl:
  "weekly_loop rt pid sched c e acc = Inl x \<longleftrightarrow> x = TypeError \<and> nullish sched \<and> date_le c e"
  using weekly_loop_no_throw [of sched rt pid c e acc] weekly_loop_throw [of sched c e rt pid acc]
    weekly_loop_stop [of c e rt pid sched acc]
  by (cases "nullish sched"; cases "date_le c e") auto

lemma monthly_loop_Inl:
  "monthly_loop rt pid sched c e acc = Inl x \<longleftrightarrow> x = TypeError \<and> nullish sched \<and> date_le c e"
  using monthly_loop_no_throw [of sched rt pid c e acc] monthly_loop_throw [of sched c e rt pid acc]
    monthly_loop_stop [of c e rt pid sched acc]
  by (cases "nullish sched"; cases "date_le c e") auto

text \<open>The branch \<open>build_sessions\<close> takes for each schedule type.\<close>

lemma build_weekly:
  "schedule_type p = ''weekly'' \<Longrightarrow>
   build_sessions rt p =
     weekly_loop rt (id_plan p) (schedule_data p) (new_Date rt (start_date p))
       (new_Date rt (end_date p)) []"
  by (simp add: build_sessions_def Let_def)

lemma build_monthly:
  "schedule_type p = ''monthly'' \<Longrightarrow>
   build_sessions rt p =
     monthly_loop rt (id_plan p) (schedule_data p) (new_Date rt (start_date p))
       (new_Date rt (end_date p)) []"
  by (simp add: build_sessions_def Let_def)

lemma build_custom:
  "schedule_type p = ''custom'' \<Longrightarrow> schedule_data p = JArr es \<Longrightarrow>
   build_sessions rt p = forEach_custom (id_plan p) es []"
  by (simp add: build_sessions_def Let_def)

lemma build_custom_other:
  "schedule_type p = ''custom'' \<Longrightarrow> \<forall>es. schedule_data p \<noteq> JArr es \<Longrightarrow>
   build_sessions rt p = Inr []"
  by (cases "schedule_data p") (simp_all add: build_sessions_def Let_def)

lemma build_other:
  "schedule_type p \<noteq> ''weekly'' \<Longrightarrow> schedule_type p \<noteq> ''monthly'' \<Longrightarrow>
   schedule_type p \<noteq> ''custom'' \<Longrightarrow> build_sessions rt p = Inr []"
  by (simp add: build_sessions_def Let_def)

text \<open>An entry list with no \<open>undefined\<close> or \<open>null\<close> element is filtered and mapped in order.\<close>

lemma custom_body_ok:
  "\<not> nullish e \<Longrightarrow>
   custom_body pid e acc = Inr (acc @ (if entry_set e then [entry_row pid e] else []))"
  by (simp add: custom_body_def js_get_def entry_set_def entry_row_def custom_row_def)

lemma custom_body_nullish: "nullish e \<Longrightarrow> custom_body pid e acc = Inl TypeError"
  by (simp add: custom_body_def js_get_def)

lemma forEach_custom_ok:
  "\<forall>e \<in> set es. \<not> nullish e \<Longrightarrow>
   forEach_custom pid es acc = Inr (acc @ map (entry_row pid) (filter entry_set es))"
  by (induction es arbitrary: acc) (simp_all add: custom_body_ok)

lemma forEach_custom_throw:
  "\<exists>e \<in> set es. nullish e \<Longrightarrow> forEach_custom pid es acc = Inl TypeError"
proof (induction es arbitrary: acc)
  case Nil
  then show ?case by simp
next
  case (Cons e es)
  show ?case
  proof (cases "nullish e")
    case True
    then show ?thesis by (simp add: custom_body_nullish)
  next
    case False
    with Cons.prems have "\<exists>e \<in> set es. nullish e" by simp
    then show ?thesis using False Cons.IH by (simp add: custom_body_ok)
  qed
qed

lemma forEach_custom_Inl:
  "forEach_custom pid es acc = Inl x \<longleftrightarrow> x = TypeError \<and> (\<exists>e \<in> set es. nullish e)"
  using forEach_custom_ok [of es pid acc] forEach_custom_throw [of es pid acc]
  by (cases "\<exists>e \<in> set es. nullish e") auto

text \<open>Each loop keeps what holds of the rows pushed so far.\<close>

lemma weekly_body_inv:
  "weekly_body rt pid sched (Some t) acc = Inr r \<Longrightarrow> list_all (weekly_inv pid) acc \<Longrightarrow>
   list_all (weekly_inv pid) r"
  by (auto simp: weekly_body_def Let_def weekly_inv_def split: sum.splits if_splits)

lemma monthly_body_inv:
  "monthly_body rt pid sched (Some t) acc = Inr r \<Longrightarrow> list_all (monthly_inv pid) acc \<Longrightarrow>
   list_all (monthly_inv pid) r"
  by (auto simp: monthly_body_def Let_def monthly_inv_def getDate_def weekOfMonth_of_def
      split: sum.splits if_splits prod.splits)

lemma weekly_loop_inv:
  "weekly_loop rt pid sched c e acc = Inr r \<Longrightarrow> list_all (weekly_inv pid) acc \<Longrightarrow>
   list_all (weekly_inv pid) r"
proof (induction rt pid sched c e acc rule: weekly_loop.induct)
  case (1 rt pid sched c e acc)
  show ?case
  proof (cases "date_le c e")
    case False
    then show ?thesis using "1.prems" by (simp add: weekly_loop_stop)
  next
    case True
    then obtain t where c: "c = Some t" using date_le_cases by blast
    from "1.prems"(1) True obtain acc' where
      b: "weekly_body rt pid sched c acc = Inr acc'"
      and l: "weekly_loop rt pid sched (advance rt c) e acc' = Inr r"
      by (subst (asm) weekly_loop.simps) (auto split: sum.splits)
    show ?thesis
      using "1.IH" [OF True b l] weekly_body_inv [OF b [unfolded c] "1.prems"(2)] by simp
  qed
qed

lemma monthly_loop_inv:
  "monthly_loop rt pid sched c e acc = Inr r \<Longrightarrow> list_all (monthly_inv pid) acc \<Longrightarrow>
   list_all (monthly_inv pid) r"
proof (induction rt pid sched c e acc rule: monthly_loop.induct)
  case (1 rt pid sched c e acc)
  show ?case
  proof (cases "date_le c e")
    case False
    then show ?thesis using "1.prems" by (simp add: monthly_loop_stop)
  next
    case True
    then obtain t where c: "c = Some t" using date_le_cases by blast
    from "1.prems"(1) True obtain acc' where
      b: "monthly_body rt pid sched c acc = Inr acc'"
      and l: "monthly_loop rt pid sched (advance rt c) e acc' = Inr r"
      by (subst (asm) monthly_loop.simps) (auto split: sum.splits)
    show ?thesis
      using "1.IH" [OF True b l] monthly_body_inv [OF b [unfolded c] "1.prems"(2)] by simp
  qed
qed

lemma custom_body_inv:
  "custom_body pid e acc = Inr r \<Longrightarrow> list_all (custom_inv pid) acc \<Longrightarrow>
   list_all (custom_inv pid) r"
  by (auto simp: custom_body_def custom_inv_def split: sum.splits if_splits)

lemma forEach_custom_inv:
  "forEach_custom pid es acc = Inr r \<Longrightarrow> list_all (custom_inv pid) acc \<Longrightarrow>
   list_all (custom_inv pid) r"
  by (induction es arbitrary: acc) (auto split: sum.splits dest: custom_body_inv)

text \<open>The four ways \<open>generatePlanSessions\<close> ends.\<close>

lemma generate_empty: "build_sessions rt p = Inr [] \<Longrightarrow> generatePlanSessions rt reply p db = (True, db)"
  by (simp add: generatePlanSessions_def)

lemma generate_throw: "build_sessions rt p = Inl x \<Longrightarrow> generatePlanSessions rt reply p db = (False, db)"
  by (simp add: generatePlanSessions_def)

lemma generate_accepted:
  "build_sessions rt p = Inr ss \<Longrightarrow> ss \<noteq> [] \<Longrightarrow> reply ss = Accepted \<Longrightarrow>
   generatePlanSessions rt reply p db =
     (True, db\<lparr>insert_calls := insert_calls db @ [ss], plan_sessions := plan_sessions db @ ss\<rparr>)"
  by (simp add: generatePlanSessions_def insert_sessions_def Let_def)

lemma generate_not_accepted:
  "build_sessions rt p = Inr ss \<Longrightarrow> ss \<noteq> [] \<Longrightarrow> reply ss \<noteq> Accepted \<Longrightarrow>
   generatePlanSessions rt reply p db = (False, db\<lparr>insert_calls := insert_calls db @ [ss]\<rparr>)"
  by (cases "reply ss") (simp_all add: generatePlanSessions_def insert_sessions_def Let_def)

text \<open>Deleting the plan's rows between two calls leaves one set of its sessions.\<close>

lemma delete_then_regenerate:
  assumes "reply1 (matching rt p) = Accepted" and "reply2 (matching rt p) = Accepted"
  shows "plan_sessions (snd (generatePlanSessions rt reply2 p
             (snd (deletePlanSessions Accepted (id_plan p)
                (snd (generatePlanSessions rt reply1 p db))))))
         = filter (\<lambda>x. plan_id x \<noteq> id_plan p) (plan_sessions db) @ matching rt p"
proof (cases "build_sessions rt p")
  case (Inl x)
  then show ?thesis by (simp add: generate_throw matching_def deletePlanSessions_def)
next
  case (Inr ss)
  then have m: "matching rt p = ss" by (simp add: matching_def)
  have "list_all (\<lambda>x. plan_id x = id_plan p) ss"
  proof -
    have "plan_id x = id_plan p" if "x \<in> set ss" for x
    proof -
      consider (w) "schedule_type p = ''weekly''" | (m) "schedule_type p = ''monthly''"
        | (c) es where "schedule_type p = ''custom''" "schedule_data p = JArr es"
        | (d) "schedule_type p = ''custom''" "\<forall>es. schedule_data p \<noteq> JArr es"
        | (o) "schedule_type p \<noteq> ''weekly''" "schedule_type p \<noteq> ''monthly''" "schedule_type p \<noteq> ''custom''"
        by blast
      then show ?thesis
      proof cases
        case w
        then have "list_all (weekly_inv (id_plan p)) ss"
          using Inr weekly_loop_inv [of rt "id_plan p" "schedule_data p" _ _ "[]" ss]
          by (simp add: build_weekly)
        then show ?thesis using that by (simp add: list_all_iff weekly_inv_def)
      next
        case m
        then have "list_all (monthly_inv (id_plan p)) ss"
          using Inr monthly_loop_inv [of rt "id_plan p" "schedule_data p" _ _ "[]" ss]
          by (simp add: build_monthly)
        then show ?thesis using that by (simp add: list_all_iff monthly_inv_def)
      next
        case c
        then have "list_all (custom_inv (id_plan p)) ss"
          using Inr forEach_custom_inv [of "id_plan p" es "[]" ss]
          by (simp add: build_custom)
        then show ?thesis using that by (simp add: list_all_iff custom_inv_def)
      next
        case d
        then show ?thesis using Inr that by (simp add: build_custom_other)
      next
        case o
        then show ?thesis using Inr that by (simp add: build_other)
      qed
    qed
    then show ?thesis by (simp add: list_all_iff)
  qed
  then have f: "filter (\<lambda>x. plan_id x \<noteq> id_plan p) ss = []"
    by (simp add: list_all_iff filter_empty_conv)
  show ?thesis
  proof (cases "ss = []")
    case True
    then show ?thesis using Inr m by (simp add: generate_empty deletePlanSessions_def)
  next
    case False
    then show ?thesis using Inr m assms f by (simp add: generate_accepted deletePlanSessions_def)
  qed
qed

section \<open>Facts about dates as strings\<close>

text \<open>
  Some days of the calendar and two weekdays; strings as \<open>new Date\<close> reads them in
  America/Los_Angeles, the offset there on both sides of a change, and the step of a walk
  across the change to daylight saving time.
\<close>

lemma calendar_examples:
  "civil_from_days 0 = (1970, 1, 1)"
  "civil_from_days 19782 = (2024, 2, 29)"
  "civil_from_days 19783 = (2024, 3, 1)"
  "civil_from_days 11016 = (2000, 2, 29)"
  "civil_from_days (- 25509) = (1900, 2, 28)"
  "civil_from_days (- 25508) = (1900, 3, 1)"
  "civil_from_days (- 1) = (1969, 12, 31)"
  "civil_from_days (- 719528) = (0, 1, 1)"
  "civil_from_days 2932896 = (9999, 12, 31)"
  "civil_from_days 100000000 = (275760, 9, 13)"
  "civil_from_days (- 100000000) = (- 271821, 4, 20)"
  "toLocaleDateString_weekday (fixed_runtime 0) (new_Date (fixed_runtime 0) ''2024-01-01'') = ''Monday''"
  "toLocaleDateString_weekday (fixed_runtime 0) (new_Date (fixed_runtime 0) ''1970-01-01'') = ''Thursday''"
  by code_simp+

lemma parse_examples:
  "new_Date los_angeles_2024 ''2024-03-10'' = Some 1710028800000"
  "new_Date los_angeles_2024 ''2024-03-10T00:00:00.000Z'' = Some 1710028800000"
  "new_Date los_angeles_2024 ''2024-03-10T00:00:00'' = Some 1710057600000"
  "new_Date los_angeles_2024 ''2024-03-10T02:30'' = Some 1710066600000"
  "new_Date los_angeles_2024 ''2024-03-10T03:00'' = Some 1710064800000"
  "new_Date los_angeles_2024 ''2024-11-03T01:30:00'' = Some 1730622600000"
  "new_Date los_angeles_2024 ''2024-03-10T10:00:00+05:30'' = Some 1710045000000"
  "new_Date los_angeles_2024 ''2024-01-01T00:00:00+00:00'' = Some 1704067200000"
  "new_Date los_angeles_2024 ''2024'' = Some 1704067200000"
  "new_Date los_angeles_2024 ''+275760-09-13'' = Some 8640000000000000"
  "new_Date los_angeles_2024 ''+275760-09-14'' = None"
  "new_Date los_angeles_2024 ''2024-13-01'' = None"
  "new_Date los_angeles_2024 ''soon'' = None"
  "toISOString (Some 1710111600000) = Inr ''2024-03-10T23:00:00.000Z''"
  "LocalTZA los_angeles_2024 1710064799999 True = - 28800000"
  "LocalTZA los_angeles_2024 1710064800000 True = - 25200000"
  "LocalTZA los_angeles_2024 1730624400000 True = - 28800000"
  "advance los_angeles_2024 (Some 1710028800000) = Some 1710111600000"
  "advance (fixed_runtime utc_minus_8) (Some 1710028800000) = Some 1710115200000"
  by code_simp+

text \<open>Every time value lies in a year of at most six digits.\<close>

lemma civil_year_bound:
  assumes "civil_from_days z = (y, m, d)" and "- 100000000 \<le> z" and "z \<le> 100000000"
  shows "- 999999 \<le> y \<and> y \<le> 999999"
proof -
  define era where "era = (z + 719468) div 146097"
  define doe where "doe = (z + 719468) mod 146097"
  define cent where "cent = min 3 (doe div 36524)"
  define doc where "doc = doe - cent * 36524"
  define q where "q = min 24 (doc div 1461)"
  define doq where "doq = doc - q * 1461"
  define yr where "yr = min 3 (doq div 365)"
  define doy where "doy = doq - yr * 365"
  define mp where "mp = (5 * doy + 2) div 153"
  define yoe where "yoe = cent * 100 + q * 4 + yr"
  note defs = era_def doe_def cent_def doc_def q_def doq_def yr_def doy_def mp_def yoe_def
  have f: "0 \<le> cent \<and> cent \<le> 3 \<and> 0 \<le> q \<and> q \<le> 24 \<and> 0 \<le> yr \<and> yr \<le> 3 \<and> 0 \<le> doy \<and> doy \<le> 365
    \<and> doe = cent * 36524 + q * 1461 + yr * 365 + doy"
    using civil_fields [of z] unfolding defs by blast
  have "civil_from_days z =
      (era * 400 + yoe + (if (if mp < 10 then mp + 3 else mp - 9) \<le> 2 then 1 else 0),
       if mp < 10 then mp + 3 else mp - 9, doy - (153 * mp + 2) div 5 + 1)"
    unfolding civil_from_days_def Let_def defs ..
  then have y: "y = era * 400 + yoe + (if (if mp < 10 then mp + 3 else mp - 9) \<le> 2 then 1 else 0)"
    using assms(1) by simp
  have y': "era * 400 + yoe \<le> y" "y \<le> era * 400 + yoe + 1"
    using y by (simp_all split: if_splits)
  have z: "z + 719468 = era * 146097 + doe" "0 \<le> doe" "doe < 146097"
    by (simp_all add: era_def doe_def)
  have era: "- 700 \<le> era" "era \<le> 700" using z assms(2,3) by linarith+
  have yoe: "0 \<le> yoe" "yoe \<le> 399" using f by (simp_all add: yoe_def)
  show ?thesis using y' era yoe by linarith
qed

text \<open>Digits are written and read back.\<close>

lemma digit_mem: "digit n \<in> set ''0123456789''"
proof -
  have "nat (n mod 10) < length ''0123456789''" by simp
  then show ?thesis unfolding digit_def by (rule nth_mem)
qed

lemma digit_val_digit: "digit_val (digit n) = Some (n mod 10)"
proof -
  define r where "r = n mod 10"
  have "0 \<le> r" "r < 10" by (simp_all add: r_def)
  then have "r = 0 \<or> r = 1 \<or> r = 2 \<or> r = 3 \<or> r = 4 \<or> r = 5 \<or> r = 6 \<or> r = 7 \<or> r = 8 \<or> r = 9"
    by arith
  then show ?thesis unfolding digit_def digit_val_def r_def [symmetric] by auto
qed

lemma digit_val_range: "digit_val c = Some v \<Longrightarrow> 0 \<le> v \<and> v \<le> 9"
  by (auto simp: digit_val_def split: if_splits)

lemma set_dec_digits: "set (dec_digits w v) \<subseteq> set ''0123456789''"
proof (induction w arbitrary: v)
  case 0
  then show ?case by simp
next
  case (Suc w)
  have "set (dec_digits (Suc w) v) = set (dec_digits w (v div 10)) \<union> {digit v}" by simp
  then show ?case using Suc [of "v div 10"] digit_mem [of v] by blast
qed

lemma length_dec_digits: "length (dec_digits w v) = w"
  by (induction w arbitrary: v) simp_all

lemma num_of_append:
  "num_of acc (xs @ ys) = (case num_of acc xs of None \<Rightarrow> None | Some a \<Rightarrow> num_of a ys)"
  by (induction xs arbitrary: acc) (simp_all split: option.splits)

lemma num_of_dec_digits:
  "0 \<le> v \<Longrightarrow> v < 10 ^ w \<Longrightarrow> num_of acc (dec_digits w v) = Some (acc * 10 ^ w + v)"
proof (induction w arbitrary: v)
  case 0
  then show ?case by simp
next
  case (Suc w)
  have "0 \<le> v div 10" using Suc.prems(1) by simp
  moreover have "v div 10 < 10 ^ w" using Suc.prems(2) by simp
  ultimately have "num_of acc (dec_digits w (v div 10)) = Some (acc * 10 ^ w + v div 10)"
    by (rule Suc.IH)
  then show ?case
    by (simp add: num_of_append digit_val_digit algebra_simps)
qed

lemma read_field_pad:
  assumes "0 \<le> v" and "v < 10 ^ n"
  shows "read_field n (pad n v @ r) = Some (v, r)"
proof -
  have l: "length (pad n v) = n" by (simp add: pad_def length_dec_digits)
  have "num_of 0 (pad n v) = Some v"
    using num_of_dec_digits [OF assms, of 0] by (simp add: pad_def)
  then show ?thesis by (simp add: read_field_def l)
qed

lemma pad_starts_with_digit:
  "\<exists>c cs. pad (Suc n) v = c # cs \<and> c \<noteq> CHR ''+'' \<and> c \<noteq> CHR ''-''"
proof -
  have "length (pad (Suc n) v) = Suc n" by (simp add: pad_def length_dec_digits)
  then obtain c cs where p: "pad (Suc n) v = c # cs" by (auto simp: length_Suc_conv)
  have "set (pad (Suc n) v) \<subseteq> set ''0123456789''"
    unfolding pad_def by (rule set_dec_digits)
  then have "c \<in> set ''0123456789''" unfolding p by simp
  then have "c \<noteq> CHR ''+'' \<and> c \<noteq> CHR ''-''" by auto
  then show ?thesis using p by blast
qed

lemma read_year_year_str:
  assumes "- 999999 \<le> y" and "y \<le> 999999"
  shows "read_year (year_str y @ r) = Some (y, r)"
proof -
  consider (four) "0 \<le> y" "y \<le> 9999" | (minus) "y < 0" | (plus) "9999 < y" by linarith
  then show ?thesis
  proof cases
    case four
    obtain c cs where p: "pad 4 y = c # cs" and c: "c \<noteq> CHR ''+''" "c \<noteq> CHR ''-''"
      using pad_starts_with_digit [of 3 y] by (auto simp: eval_nat_numeral)
    have "read_field 4 (pad 4 y @ r) = Some (y, r)"
      using four by (intro read_field_pad) simp_all
    then have "read_year ((c # cs) @ r) = Some (y, r)"
      using c unfolding p by (simp add: read_year_def)
    then show ?thesis using four by (simp add: year_str_def p)
  next
    case minus
    have "read_field 6 (pad 6 (- y) @ r) = Some (- y, r)"
      using minus assms by (intro read_field_pad) simp_all
    then show ?thesis using minus by (simp add: year_str_def read_year_def)
  next
    case plus
    have "read_field 6 (pad 6 y @ r) = Some (y, r)"
      using plus assms by (intro read_field_pad) simp_all
    then show ?thesis using plus by (simp add: year_str_def read_year_def)
  qed
qed

text \<open>
  The date part of \<open>toISOString\<close> has no \<open>T\<close>, and read as a date it names the day
  of the instant.
\<close>

lemma takeWhile_sep: "c \<notin> set xs \<Longrightarrow> takeWhile (\<lambda>x. x \<noteq> c) (xs @ c # ys) = xs"
  by (induction xs) auto

lemma T_not_in_pad: "CHR ''T'' \<notin> set (pad w v)"
  using set_dec_digits [of w v] by (auto simp: pad_def)

lemma T_not_in_year_str: "CHR ''T'' \<notin> set (year_str y)"
  using T_not_in_pad [of 4 y] T_not_in_pad [of 6 "\<bar>y\<bar>"] by (auto simp: year_str_def)

lemma split_T_0_toISOString: "toISOString (Some t) = Inr s \<Longrightarrow> split_T_0 s = iso_date t"
proof -
  assume a: "toISOString (Some t) = Inr s"
  obtain y m dd where c: "civil_from_days (Day t) = (y, m, dd)" by (metis prod_cases3)
  have n: "CHR ''T'' \<notin> set (year_str y @ ''-'' @ pad 2 m @ ''-'' @ pad 2 dd)"
    using T_not_in_year_str [of y] T_not_in_pad [of 2 m] T_not_in_pad [of 2 dd] by simp
  define rest where "rest = pad 2 (TimeWithinDay t div 3600000) @ '':''
      @ pad 2 (TimeWithinDay t div 60000 mod 60) @ '':''
      @ pad 2 (TimeWithinDay t div 1000 mod 60) @ ''.'' @ pad 3 (TimeWithinDay t mod 1000) @ ''Z''"
  have "s = (year_str y @ ''-'' @ pad 2 m @ ''-'' @ pad 2 dd) @ CHR ''T'' # rest"
    using a by (auto simp: toISOString_def c Let_def rest_def)
  then have "split_T_0 s = year_str y @ ''-'' @ pad 2 m @ ''-'' @ pad 2 dd"
    unfolding split_T_0_def using takeWhile_sep [OF n] by simp
  then show ?thesis by (simp add: iso_date_def c)
qed

lemma Day_bound: "\<bar>t\<bar> \<le> maxTime \<Longrightarrow> - 100000000 \<le> Day t \<and> Day t \<le> 100000000"
proof -
  assume a: "\<bar>t\<bar> \<le> maxTime"
  define z where "z = t div 86400000"
  have "86400000 * z \<le> t" "t < 86400000 * z + 86400000" unfolding z_def by linarith+
  moreover have "- 8640000000000000 \<le> t" "t \<le> 8640000000000000"
    using a by (simp_all add: maxTime_def abs_le_iff)
  ultimately have "- 100000000 \<le> z \<and> z \<le> 100000000" by linarith
  then show ?thesis by (simp add: Day_def msPerDay_def z_def)
qed

lemma read_date_iso_date:
  assumes "\<bar>t\<bar> \<le> maxTime"
  shows "read_date (iso_date t) = Some (Day t)"
proof -
  obtain y m d where c: "civil_from_days (Day t) = (y, m, d)" by (metis prod_cases3)
  have z: "- 100000000 \<le> Day t" "Day t \<le> 100000000" using Day_bound [OF assms] by simp_all
  have y: "- 999999 \<le> y" "y \<le> 999999" using civil_year_bound [OF c z] by simp_all
  have r: "1 \<le> m \<and> m \<le> 12 \<and> 1 \<le> d \<and> d \<le> 31" using civil_from_days_range [OF c] .
  have i: "iso_date t = year_str y @ CHR ''-'' # pad 2 m @ CHR ''-'' # pad 2 d"
    by (simp add: iso_date_def c)
  have ry: "read_year (year_str y @ CHR ''-'' # pad 2 m @ CHR ''-'' # pad 2 d)
      = Some (y, CHR ''-'' # pad 2 m @ CHR ''-'' # pad 2 d)"
    by (rule read_year_year_str [OF y])
  have rm: "read_field 2 (pad 2 m @ CHR ''-'' # pad 2 d) = Some (m, CHR ''-'' # pad 2 d)"
    using r by (intro read_field_pad) simp_all
  have rd: "read_field 2 (pad 2 d @ []) = Some (d, [])"
    using r by (intro read_field_pad) simp_all
  have "read_date_part (iso_date t) = Some (days_from_civil y m d, [])"
    unfolding i using r rd by (simp add: read_date_part_def ry rm make_day_def)
  then show ?thesis using days_from_civil_inverse [OF c] by (simp add: read_date_def)
qed

lemma new_Date_range: "new_Date rt s = Some t \<Longrightarrow> \<bar>t\<bar> \<le> maxTime"
  by (auto simp: new_Date_def TimeClip_def split: option.splits if_splits)

section \<open>Facts about the dates a walk emits\<close>

lemma weekly_body_rows:
  assumes "\<not> nullish sched"
  shows "weekly_body rt pid sched (Some t) acc = Inr (acc @ weekly_rows rt pid sched t)"
proof -
  obtain s where s: "toISOString (Some t) = Inr s" using toISOString_Some by blast
  show ?thesis
    using assms split_T_0_toISOString [OF s]
    by (simp add: weekly_body_def weekly_rows_def js_get_def Let_def s weekly_row_def)
qed

lemma getDate_Some: "getDate rt (Some t) = Some (local_day_of_month rt t)"
  by (simp add: getDate_def local_day_of_month_def split: prod.splits)

lemma monthly_body_rows:
  assumes "\<not> nullish sched"
  shows "monthly_body rt pid sched (Some t) acc = Inr (acc @ monthly_rows rt pid sched t)"
proof -
  obtain s where s: "toISOString (Some t) = Inr s" using toISOString_Some by blast
  show ?thesis
    using assms split_T_0_toISOString [OF s]
    by (simp add: monthly_body_def monthly_rows_def js_get_def js_get_index_def Let_def s
        monthly_row_def getDate_Some weekOfMonth_of_def truthy_not_nullish)
qed

lemma weekly_body_date:
  assumes "weekly_body rt pid sched (Some t) acc = Inr r"
  shows "r = acc \<or> (\<exists>x. r = acc @ [x] \<and> scheduled_date x = JStr (iso_date t))"
proof (cases "nullish sched")
  case True
  then show ?thesis using assms by (simp add: weekly_body_nullish)
next
  case False
  then have "r = acc @ weekly_rows rt pid sched t"
    using assms by (simp add: weekly_body_rows)
  then show ?thesis by (simp add: weekly_rows_def Let_def weekly_row_def)
qed

lemma monthly_body_date:
  assumes "monthly_body rt pid sched (Some t) acc = Inr r"
  shows "r = acc \<or> (\<exists>x. r = acc @ [x] \<and> scheduled_date x = JStr (iso_date t))"
proof (cases "nullish sched")
  case True
  then show ?thesis using assms by (simp add: monthly_body_nullish)
next
  case False
  then have "r = acc @ monthly_rows rt pid sched t"
    using assms by (simp add: monthly_body_rows)
  then show ?thesis by (simp add: monthly_rows_def Let_def monthly_row_def)
qed

lemma advance_after:
  "case advance rt (Some t) of None \<Rightarrow> True | Some t' \<Rightarrow> t < t'"
  using advance_later [of rt t] by (auto split: option.splits)

lemma dated_step:
  assumes d: "dated s e (Some t) ts acc" and t: "s \<le> t" "t \<le> e"
    and r: "r = acc \<or> (\<exists>x. r = acc @ [x] \<and> scheduled_date x = JStr (iso_date t))"
  shows "\<exists>ts'. dated s e (advance rt (Some t)) ts' r"
proof -
  have less: "case advance rt (Some t) of None \<Rightarrow> True | Some t' \<Rightarrow> t < t'"
    by (rule advance_after)
  have weaken: "list_all (\<lambda>x. s \<le> x \<and> x \<le> e
      \<and> (case advance rt (Some t) of None \<Rightarrow> True | Some t' \<Rightarrow> x < t')) ts"
    using d less by (auto simp: dated_def list_all_iff split: option.splits)
  from r show ?thesis
  proof
    assume "r = acc"
    then have "dated s e (advance rt (Some t)) ts r"
      using d weaken by (simp add: dated_def)
    then show ?thesis ..
  next
    assume "\<exists>x. r = acc @ [x] \<and> scheduled_date x = JStr (iso_date t)"
    then obtain x where x: "r = acc @ [x]" "scheduled_date x = JStr (iso_date t)" by blast
    have "sorted_wrt (<) (ts @ [t])"
      using d by (auto simp: dated_def sorted_wrt_append list_all_iff)
    then have "dated s e (advance rt (Some t)) (ts @ [t]) r"
      using d weaken less t x by (auto simp: dated_def split: option.splits)
    then show ?thesis ..
  qed
qed

lemma weekly_loop_dated:
  assumes "weekly_loop rt pid sched c (Some e) acc = Inr r"
    and "dated s e c ts acc"
    and "case c of None \<Rightarrow> True | Some t \<Rightarrow> s \<le> t"
  shows "\<exists>ts'. dated s e None ts' r"
  using assms
proof (induction rt pid sched c "Some e" acc arbitrary: ts rule: weekly_loop.induct)
  case (1 rt pid sched c acc)
  show ?case
  proof (cases "date_le c (Some e)")
    case False
    then have "r = acc" using "1.prems"(1) by (simp add: weekly_loop_stop)
    then have "dated s e None ts r"
      using "1.prems"(2) by (auto simp: dated_def list_all_iff)
    then show ?thesis ..
  next
    case True
    then obtain t where c: "c = Some t" and te: "t \<le> e"
      using date_le_cases by blast
    from "1.prems"(1) True obtain acc' where
      b: "weekly_body rt pid sched c acc = Inr acc'"
      and l: "weekly_loop rt pid sched (advance rt c) (Some e) acc' = Inr r"
      by (subst (asm) weekly_loop.simps) (auto split: sum.splits)
    have st: "s \<le> t" using "1.prems"(3) c by simp
    obtain ts' where d': "dated s e (advance rt c) ts' acc'"
      using dated_step [OF "1.prems"(2) [unfolded c] st te weekly_body_date [OF b [unfolded c]]]
      unfolding c by blast
    have n: "case advance rt c of None \<Rightarrow> True | Some t' \<Rightarrow> s \<le> t'"
      using st advance_after [where rt = rt and t = t] unfolding c by (auto split: option.splits)
    show ?thesis by (rule "1.hyps" [OF True b l d' n])
  qed
qed

lemma monthly_loop_dated:
  assumes "monthly_loop rt pid sched c (Some e) acc = Inr r"
    and "dated s e c ts acc"
    and "case c of None \<Rightarrow> True | Some t \<Rightarrow> s \<le> t"
  shows "\<exists>ts'. dated s e None ts' r"
  using assms
proof (induction rt pid sched c "Some e" acc arbitrary: ts rule: monthly_loop.induct)
  case (1 rt pid sched c acc)
  show ?case
  proof (cases "date_le c (Some e)")
    case False
    then have "r = acc" using "1.prems"(1) by (simp add: monthly_loop_stop)
    then have "dated s e None ts r"
      using "1.prems"(2) by (auto simp: dated_def list_all_iff)
    then show ?thesis ..
  next
    case True
    then obtain t where c: "c = Some t" and te: "t \<le> e"
      using date_le_cases by blast
    from "1.prems"(1) True obtain acc' where
      b: "monthly_body rt pid sched c acc = Inr acc'"
      and l: "monthly_loop rt pid sched (advance rt c) (Some e) acc' = Inr r"
      by (subst (asm) monthly_loop.simps) (auto split: sum.splits)
    have st: "s \<le> t" using "1.prems"(3) c by simp
    obtain ts' where d': "dated s e (advance rt c) ts' acc'"
      using dated_step [OF "1.prems"(2) [unfolded c] st te monthly_body_date [OF b [unfolded c]]]
      unfolding c by blast
    have n: "case advance rt c of None \<Rightarrow> True | Some t' \<Rightarrow> s \<le> t'"
      using st advance_after [where rt = rt and t = t] unfolding c by (auto split: option.splits)
    show ?thesis by (rule "1.hyps" [OF True b l d' n])
  qed
qed

text \<open>What a walk between two parsed dates leaves.\<close>

lemma walk_dated:
  assumes "schedule_type p = ''weekly'' \<or> schedule_type p = ''monthly''"
    and "build_sessions rt p = Inr ss"
  shows "ss = [] \<or> (\<exists>s e ts. new_Date rt (start_date p) = Some s \<and> new_Date rt (end_date p) = Some e
      \<and> dated s e None ts ss)"
proof (cases "date_le (new_Date rt (start_date p)) (new_Date rt (end_date p))")
  case False
  then have "ss = []"
    using assms by (auto simp: build_weekly build_monthly weekly_loop_stop monthly_loop_stop)
  then show ?thesis ..
next
  case True
  then obtain s e where s: "new_Date rt (start_date p) = Some s" and e: "new_Date rt (end_date p) = Some e"
    using date_le_cases by blast
  have m: "case Some s of None \<Rightarrow> True | Some t \<Rightarrow> s \<le> t" by simp
  have d: "dated s e (Some s) [] []" by (simp add: dated_def)
  from assms(1) have "\<exists>ts. dated s e None ts ss"
  proof
    assume "schedule_type p = ''weekly''"
    then have "weekly_loop rt (id_plan p) (schedule_data p) (Some s) (Some e) [] = Inr ss"
      using assms(2) by (simp add: build_weekly s e)
    then show ?thesis using d m by (rule weekly_loop_dated)
  next
    assume "schedule_type p = ''monthly''"
    then have "monthly_loop rt (id_plan p) (schedule_data p) (Some s) (Some e) [] = Inr ss"
      using assms(2) by (simp add: build_monthly s e)
    then show ?thesis using d m by (rule monthly_loop_dated)
  qed
  then show ?thesis using s e by blast
qed

lemma Day_mono: "t \<le> u \<Longrightarrow> Day t \<le> Day u"
  by (simp add: Day_def msPerDay_def zdiv_mono1)

lemma dated_read:
  assumes "new_Date rt a = Some s" and "new_Date rt b = Some e" and "dated s e None ts ss"
    and "x \<in> set ts"
  shows "read_date (iso_date x) = Some (Day x) \<and> Day s \<le> Day x \<and> Day x \<le> Day e"
proof -
  have r: "s \<le> x" "x \<le> e"
    using assms(3,4) by (auto simp: dated_def list_all_iff)
  have "\<bar>s\<bar> \<le> maxTime" "\<bar>e\<bar> \<le> maxTime"
    using new_Date_range [OF assms(1)] new_Date_range [OF assms(2)] by simp_all
  then have "\<bar>x\<bar> \<le> maxTime" using r by linarith
  then have "read_date (iso_date x) = Some (Day x)" by (rule read_date_iso_date)
  then show ?thesis using Day_mono [OF r(1)] Day_mono [OF r(2)] by simp
qed

lemma walk_sorted:
  assumes "schedule_type p = ''weekly'' \<or> schedule_type p = ''monthly''"
    and "build_sessions rt p = Inr ss"
  shows "sorted_wrt date_not_after (map scheduled_date ss)"
proof -
  from walk_dated [OF assms] show ?thesis
  proof
    assume "ss = []"
    then show ?thesis by simp
  next
    assume "\<exists>s e ts. new_Date rt (start_date p) = Some s \<and> new_Date rt (end_date p) = Some e
      \<and> dated s e None ts ss"
    then obtain s e ts where s: "new_Date rt (start_date p) = Some s"
      and e: "new_Date rt (end_date p) = Some e" and d: "dated s e None ts ss" by blast
    have m: "map scheduled_date ss = map (\<lambda>x. JStr (iso_date x)) ts" and o: "sorted_wrt (<) ts"
      using d by (simp_all add: dated_def)
    have "sorted_wrt (\<lambda>x y. date_not_after (JStr (iso_date x)) (JStr (iso_date y))) ts"
    proof (rule sorted_wrt_mono_rel [OF _ o])
      fix x y assume xy: "x \<in> set ts" "y \<in> set ts" "x < y"
      have "Day x \<le> Day y" using xy(3) by (intro Day_mono) simp
      then show "date_not_after (JStr (iso_date x)) (JStr (iso_date y))"
        using dated_read [OF s e d xy(1)] dated_read [OF s e d xy(2)]
        by (simp add: date_not_after_def)
    qed
    then show ?thesis unfolding m by (simp add: sorted_wrt_map)
  qed
qed

lemma walk_within_range:
  assumes "schedule_type p = ''weekly'' \<or> schedule_type p = ''monthly''"
    and "build_sessions rt p = Inr ss"
  shows "list_all (within_range rt p) (map scheduled_date ss)"
proof -
  from walk_dated [OF assms] show ?thesis
  proof
    assume "ss = []"
    then show ?thesis by simp
  next
    assume "\<exists>s e ts. new_Date rt (start_date p) = Some s \<and> new_Date rt (end_date p) = Some e
      \<and> dated s e None ts ss"
    then obtain s e ts where s: "new_Date rt (start_date p) = Some s"
      and e: "new_Date rt (end_date p) = Some e" and d: "dated s e None ts ss" by blast
    have m: "map scheduled_date ss = map (\<lambda>x. JStr (iso_date x)) ts"
      using d by (simp add: dated_def)
    have "within_range rt p (JStr (iso_date x))" if "x \<in> set ts" for x
      using dated_read [OF s e d that] by (simp add: within_range_def s e)
    then show ?thesis unfolding m by (simp add: list_all_iff)
  qed
qed

text \<open>Every row of a walk carries the template mapped to the weekday, and week, it is labelled with.\<close>

lemma weekday_name_mem: "toLocaleDateString_weekday rt (Some t) \<in> set weekday_names"
proof -
  have "0 \<le> WeekDay (LocalTime rt t)" "WeekDay (LocalTime rt t) < 7"
    by (simp_all add: WeekDay_def)
  then have "nat (WeekDay (LocalTime rt t)) < length weekday_names"
    by (simp add: weekday_names_def)
  then show ?thesis unfolding toLocaleDateString_weekday_def option.case by (rule nth_mem)
qed

lemma local_week_range:
  "1 \<le> (local_day_of_month rt t + 6) div 7 \<and> (local_day_of_month rt t + 6) div 7 \<le> 5"
proof -
  obtain y m d where c: "civil_from_days (Day (LocalTime rt t)) = (y, m, d)" by (metis prod_cases3)
  have "1 \<le> d \<and> d \<le> 31" using civil_from_days_range [OF c] by simp
  then have "1 \<le> (d + 6) div 7 \<and> (d + 6) div 7 \<le> 5" by linarith
  then show ?thesis by (simp add: local_day_of_month_def c)
qed

lemma weekly_rows_mapped: "list_all (weekly_mapped sched) (weekly_rows rt pid sched t)"
  using weekday_name_mem [of rt t]
  by (simp add: weekly_rows_def Let_def weekly_mapped_def weekly_row_def)

lemma monthly_rows_mapped: "list_all (monthly_mapped sched) (monthly_rows rt pid sched t)"
  using weekday_name_mem [of rt t] local_week_range [of rt t]
  by (simp add: monthly_rows_def Let_def monthly_mapped_def monthly_row_def)

lemma weekly_body_mapped:
  assumes "weekly_body rt pid sched (Some t) acc = Inr r" and "list_all (weekly_mapped sched) acc"
  shows "list_all (weekly_mapped sched) r"
proof (cases "nullish sched")
  case True
  then show ?thesis using assms by (simp add: weekly_body_nullish)
next
  case False
  then have "r = acc @ weekly_rows rt pid sched t"
    using assms by (simp add: weekly_body_rows)
  then show ?thesis using assms(2) weekly_rows_mapped [of sched rt pid t] by simp
qed

lemma monthly_body_mapped:
  assumes "monthly_body rt pid sched (Some t) acc = Inr r" and "list_all (monthly_mapped sched) acc"
  shows "list_all (monthly_mapped sched) r"
proof (cases "nullish sched")
  case True
  then show ?thesis using assms by (simp add: monthly_body_nullish)
next
  case False
  then have "r = acc @ monthly_rows rt pid sched t"
    using assms by (simp add: monthly_body_rows)
  then show ?thesis using assms(2) monthly_rows_mapped [of sched rt pid t] by simp
qed

lemma weekly_loop_mapped:
  "weekly_loop rt pid sched c e acc = Inr r \<Longrightarrow> list_all (weekly_mapped sched) acc \<Longrightarrow>
   list_all (weekly_mapped sched) r"
proof (induction rt pid sched c e acc rule: weekly_loop.induct)
  case (1 rt pid sched c e acc)
  show ?case
  proof (cases "date_le c e")
    case False
    then show ?thesis using "1.prems" by (simp add: weekly_loop_stop)
  next
    case True
    then obtain t where c: "c = Some t" using date_le_cases by blast
    from "1.prems"(1) True obtain acc' where
      b: "weekly_body rt pid sched c acc = Inr acc'"
      and l: "weekly_loop rt pid sched (advance rt c) e acc' = Inr r"
      by (subst (asm) weekly_loop.simps) (auto split: sum.splits)
    show ?thesis
      using "1.IH" [OF True b l] weekly_body_mapped [OF b [unfolded c] "1.prems"(2)] by simp
  qed
qed

lemma monthly_loop_mapped:
  "monthly_loop rt pid sched c e acc = Inr r \<Longrightarrow> list_all (monthly_mapped sched) acc \<Longrightarrow>
   list_all (monthly_mapped sched) r"
proof (induction rt pid sched c e acc rule: monthly_loop.induct)
  case (1 rt pid sched c e acc)
  show ?case
  proof (cases "date_le c e")
    case False
    then show ?thesis using "1.prems" by (simp add: monthly_loop_stop)
  next
    case True
    then obtain t where c: "c = Some t" using date_le_cases by blast
    from "1.prems"(1) True obtain acc' where
      b: "monthly_body rt pid sched c acc = Inr acc'"
      and l: "monthly_loop rt pid sched (advance rt c) e acc' = Inr r"
      by (subst (asm) monthly_loop.simps) (auto split: sum.splits)
    show ?thesis
      using "1.IH" [OF True b l] monthly_body_mapped [OF b [unfolded c] "1.prems"(2)] by simp
  qed
qed

section \<open>What each walk builds in a zone with one offset\<close>

text \<open>
  In a time zone that keeps one offset \<open>off\<close>, between two dates that \<open>new Date\<close>
  reads as midnight UTC of a day, on a payload that is not \<open>undefined\<close> or \<open>null\<close>,
  a walk visits midnight UTC of every calendar day from the start to the end and pushes the
  rows of that day, read off the local date at that instant. At an offset from zero up to a
  day east of UTC the local date is the day itself, and the sessions are those the
  specification describes; west of UTC it is the day before.
\<close>

lemma spec_sessions_examples:
  "spec_weekly_sessions weekly_example 19723 19736 =
     [weekly_row ''P'' (JStr ''T1'') ''2024-01-01'' ''Monday'',
      weekly_row ''P'' (JStr ''T2'') ''2024-01-03'' ''Wednesday'',
      weekly_row ''P'' (JStr ''T1'') ''2024-01-08'' ''Monday'',
      weekly_row ''P'' (JStr ''T2'') ''2024-01-10'' ''Wednesday'']"
  "spec_monthly_sessions monthly_example 19783 19813 =
     [monthly_row ''P'' (JStr ''T1'') ''2024-03-01'' ''Friday'' 1]"
  by code_simp+

lemma LocalTZA_fixed_runtime: "LocalTZA (fixed_runtime off) t u = off"
  by (simp add: LocalTZA_def fixed_runtime_def iso_runtime_def)

lemma local_day_east:
  assumes "\<And>t u. LocalTZA rt t u = off" and "0 \<le> off" and "off < msPerDay"
  shows "local_day rt z = z"
proof -
  have "(z * msPerDay + off) div msPerDay = z"
    using assms(2,3) div_unique_int [of off msPerDay z] by simp
  then show ?thesis by (simp add: local_day_def Day_def LocalTime_def assms(1))
qed

lemma local_day_west:
  assumes "\<And>t u. LocalTZA rt t u = off" and "- msPerDay \<le> off" and "off < 0"
  shows "local_day rt z = z - 1"
proof -
  have e: "z * msPerDay + off = (z - 1) * msPerDay + (off + msPerDay)"
    by (simp add: algebra_simps)
  have "((z - 1) * msPerDay + (off + msPerDay)) div msPerDay = z - 1"
    using assms(2,3) by (intro div_unique_int) simp_all
  then show ?thesis by (simp only: local_day_def Day_def LocalTime_def e assms(1))
qed

lemma weekly_rows_day:
  "weekly_rows rt pid sched (z * msPerDay) = weekly_day pid sched (local_day rt z) z"
  by (simp add: weekly_rows_def weekly_day_def toLocaleDateString_weekday_def WeekDay_def
      weekday_of_day_def local_day_def day_str_def Let_def)

lemma monthly_rows_day:
  "monthly_rows rt pid sched (z * msPerDay) = monthly_day pid sched (local_day rt z) z"
  by (simp add: monthly_rows_def monthly_day_def toLocaleDateString_weekday_def WeekDay_def
      weekday_of_day_def local_day_def day_str_def local_day_of_month_def day_of_month_def Let_def)

lemma advance_fixed:
  assumes "\<And>t u. LocalTZA rt t u = off"
  shows "advance rt (Some t) = TimeClip (t + msPerDay)"
  by (simp add: advance_Some UTC_def LocalTime_def assms)

lemma day_clip:
  "- 100000000 \<le> z \<Longrightarrow> z \<le> 100000000 \<Longrightarrow> TimeClip (z * msPerDay) = Some (z * msPerDay)"
  by (simp add: TimeClip_def msPerDay_def maxTime_def abs_if)

lemma weekly_loop_days:
  assumes "\<not> nullish sched" and "\<And>t u. LocalTZA rt t u = off"
    and "- 100000000 \<le> z" and "ze \<le> 100000000" and "z \<le> ze + 1"
  shows "weekly_loop rt pid sched (TimeClip (z * msPerDay)) (Some (ze * msPerDay)) acc =
    Inr (acc @ concat (map (\<lambda>d. weekly_day pid sched (local_day rt d) d) [z..ze]))"
  using assms(3,5)
proof (induction "nat (ze + 1 - z)" arbitrary: z acc)
  case 0
  then have z: "z = ze + 1" by simp
  have "\<not> date_le (TimeClip (z * msPerDay)) (Some (ze * msPerDay))"
    unfolding z by (simp add: date_le_def TimeClip_def msPerDay_def)
  moreover have "[z..ze] = []" using z by simp
  ultimately show ?case by (simp add: weekly_loop_stop)
next
  case (Suc n)
  then have le: "z \<le> ze" by simp
  have c: "TimeClip (z * msPerDay) = Some (z * msPerDay)"
    using Suc.prems(1) le assms(4) by (intro day_clip) simp_all
  have g: "date_le (Some (z * msPerDay)) (Some (ze * msPerDay))"
    using le by (simp add: date_le_Some msPerDay_def)
  have b: "weekly_body rt pid sched (Some (z * msPerDay)) acc =
      Inr (acc @ weekly_day pid sched (local_day rt z) z)"
    using assms(1) by (simp add: weekly_body_rows weekly_rows_day)
  have a: "advance rt (Some (z * msPerDay)) = TimeClip ((z + 1) * msPerDay)"
    using advance_fixed [of rt off, OF assms(2)] by (simp add: algebra_simps)
  have n: "n = nat (ze + 1 - (z + 1))" using Suc.hyps(2) by simp
  have i: "weekly_loop rt pid sched (TimeClip ((z + 1) * msPerDay)) (Some (ze * msPerDay))
        (acc @ weekly_day pid sched (local_day rt z) z) =
      Inr ((acc @ weekly_day pid sched (local_day rt z) z)
           @ concat (map (\<lambda>d. weekly_day pid sched (local_day rt d) d) [z + 1..ze]))"
    using Suc.prems le by (intro Suc.hyps(1) [OF n]) simp_all
  have u: "[z..ze] = z # [z + 1..ze]" using le by (simp add: upto_rec1)
  show ?case
    unfolding c by (subst weekly_loop.simps) (simp add: g b a i u)
qed

lemma monthly_loop_days:
  assumes "\<not> nullish sched" and "\<And>t u. LocalTZA rt t u = off"
    and "- 100000000 \<le> z" and "ze \<le> 100000000" and "z \<le> ze + 1"
  shows "monthly_loop rt pid sched (TimeClip (z * msPerDay)) (Some (ze * msPerDay)) acc =
    Inr (acc @ concat (map (\<lambda>d. monthly_day pid sched (local_day rt d) d) [z..ze]))"
  using assms(3,5)
proof (induction "nat (ze + 1 - z)" arbitrary: z acc)
  case 0
  then have z: "z = ze + 1" by simp
  have "\<not> date_le (TimeClip (z * msPerDay)) (Some (ze * msPerDay))"
    unfolding z by (simp add: date_le_def TimeClip_def msPerDay_def)
  moreover have "[z..ze] = []" using z by simp
  ultimately show ?case by (simp add: monthly_loop_stop)
next
  case (Suc n)
  then have le: "z \<le> ze" by simp
  have c: "TimeClip (z * msPerDay) = Some (z * msPerDay)"
    using Suc.prems(1) le assms(4) by (intro day_clip) simp_all
  have g: "date_le (Some (z * msPerDay)) (Some (ze * msPerDay))"
    using le by (simp add: date_le_Some msPerDay_def)
  have b: "monthly_body rt pid sched (Some (z * msPerDay)) acc =
      Inr (acc @ monthly_day pid sched (local_day rt z) z)"
    using assms(1) by (simp add: monthly_body_rows monthly_rows_day)
  have a: "advance rt (Some (z * msPerDay)) = TimeClip ((z + 1) * msPerDay)"
    using advance_fixed [of rt off, OF assms(2)] by (simp add: algebra_simps)
  have n: "n = nat (ze + 1 - (z + 1))" using Suc.hyps(2) by simp
  have i: "monthly_loop rt pid sched (TimeClip ((z + 1) * msPerDay)) (Some (ze * msPerDay))
        (acc @ monthly_day pid sched (local_day rt z) z) =
      Inr ((acc @ monthly_day pid sched (local_day rt z) z)
           @ concat (map (\<lambda>d. monthly_day pid sched (local_day rt d) d) [z + 1..ze]))"
    using Suc.prems le by (intro Suc.hyps(1) [OF n]) simp_all
  have u: "[z..ze] = z # [z + 1..ze]" using le by (simp add: upto_rec1)
  show ?case
    unfolding c by (subst monthly_loop.simps) (simp add: g b a i u)
qed

lemma whole_day_bound:
  "new_Date rt a = Some (z * msPerDay) \<Longrightarrow> - 100000000 \<le> z \<and> z \<le> 100000000"
proof -
  assume "new_Date rt a = Some (z * msPerDay)"
  then have "\<bar>z * msPerDay\<bar> \<le> maxTime" by (rule new_Date_range)
  then show ?thesis by (simp add: msPerDay_def maxTime_def abs_le_iff)
qed

lemma weekly_sessions:
  assumes "schedule_type p = ''weekly''" and "\<not> nullish (schedule_data p)"
    and "new_Date rt (start_date p) = Some (zs * msPerDay)"
    and "new_Date rt (end_date p) = Some (ze * msPerDay)"
    and "\<And>t u. LocalTZA rt t u = off"
  shows "build_sessions rt p =
    Inr (concat (map (\<lambda>d. weekly_day (id_plan p) (schedule_data p) (local_day rt d) d) [zs..ze]))"
proof (cases "zs \<le> ze")
  case True
  have zs: "- 100000000 \<le> zs" "zs \<le> 100000000" using whole_day_bound [OF assms(3)] by simp_all
  have ze: "ze \<le> 100000000" using whole_day_bound [OF assms(4)] by simp
  have c: "TimeClip (zs * msPerDay) = Some (zs * msPerDay)" using zs by (rule day_clip)
  have "zs \<le> ze + 1" using True by simp
  from weekly_loop_days [OF assms(2) assms(5) zs(1) ze this, of "id_plan p" "[]"]
  show ?thesis by (simp add: build_weekly assms(1,3,4) c)
next
  case False
  then have "\<not> date_le (Some (zs * msPerDay)) (Some (ze * msPerDay))"
    by (simp add: date_le_Some msPerDay_def)
  moreover have "[zs..ze] = []" using False by simp
  ultimately show ?thesis by (simp add: build_weekly assms(1,3,4) weekly_loop_stop)
qed

lemma monthly_sessions:
  assumes "schedule_type p = ''monthly''" and "\<not> nullish (schedule_data p)"
    and "new_Date rt (start_date p) = Some (zs * msPerDay)"
    and "new_Date rt (end_date p) = Some (ze * msPerDay)"
    and "\<And>t u. LocalTZA rt t u = off"
  shows "build_sessions rt p =
    Inr (concat (map (\<lambda>d. monthly_day (id_plan p) (schedule_data p) (local_day rt d) d) [zs..ze]))"
proof (cases "zs \<le> ze")
  case True
  have zs: "- 100000000 \<le> zs" "zs \<le> 100000000" using whole_day_bound [OF assms(3)] by simp_all
  have ze: "ze \<le> 100000000" using whole_day_bound [OF assms(4)] by simp
  have c: "TimeClip (zs * msPerDay) = Some (zs * msPerDay)" using zs by (rule day_clip)
  have "zs \<le> ze + 1" using True by simp
  from monthly_loop_days [OF assms(2) assms(5) zs(1) ze this, of "id_plan p" "[]"]
  show ?thesis by (simp add: build_monthly assms(1,3,4) c)
next
  case False
  then have "\<not> date_le (Some (zs * msPerDay)) (Some (ze * msPerDay))"
    by (simp add: date_le_Some msPerDay_def)
  moreover have "[zs..ze] = []" using False by simp
  ultimately show ?thesis by (simp add: build_monthly assms(1,3,4) monthly_loop_stop)
qed

lemma week_of_month_range: "1 \<le> (day_of_month z + 6) div 7 \<and> (day_of_month z + 6) div 7 \<le> 5"
proof -
  obtain y m d where c: "civil_from_days z = (y, m, d)" by (metis prod_cases3)
  have "1 \<le> d \<and> d \<le> 31" using civil_from_days_range [OF c] by simp
  then have "1 \<le> (d + 6) div 7 \<and> (d + 6) div 7 \<le> 5" by linarith
  then show ?thesis by (simp add: day_of_month_def c)
qed

lemma weekly_sessions_east_of_utc:
  assumes "schedule_type p = ''weekly''" and "\<not> nullish (schedule_data p)"
    and "new_Date rt (start_date p) = Some (zs * msPerDay)"
    and "new_Date rt (end_date p) = Some (ze * msPerDay)"
    and "\<And>t u. LocalTZA rt t u = off" and "0 \<le> off" and "off < msPerDay"
  shows "build_sessions rt p = Inr (spec_weekly_sessions p zs ze)"
  using weekly_sessions [OF assms(1-5)] local_day_east [of rt off, OF assms(5-7)]
  by (simp add: spec_weekly_sessions_def)

lemma weekly_sessions_west_of_utc:
  assumes "schedule_type p = ''weekly''" and "\<not> nullish (schedule_data p)"
    and "new_Date rt (start_date p) = Some (zs * msPerDay)"
    and "new_Date rt (end_date p) = Some (ze * msPerDay)"
    and "\<And>t u. LocalTZA rt t u = off" and "- msPerDay \<le> off" and "off < 0"
  shows "build_sessions rt p =
    Inr (concat (map (\<lambda>d. weekly_day (id_plan p) (schedule_data p) (d - 1) d) [zs..ze]))"
  using weekly_sessions [OF assms(1-5)] local_day_west [of rt off, OF assms(5-7)] by simp

lemma monthly_sessions_east_of_utc:
  assumes "schedule_type p = ''monthly''" and "\<not> nullish (schedule_data p)"
    and "new_Date rt (start_date p) = Some (zs * msPerDay)"
    and "new_Date rt (end_date p) = Some (ze * msPerDay)"
    and "\<And>t u. LocalTZA rt t u = off" and "0 \<le> off" and "off < msPerDay"
  shows "build_sessions rt p = Inr (spec_monthly_sessions p zs ze)"
  using monthly_sessions [OF assms(1-5)] local_day_east [of rt off, OF assms(5-7)]
  by (simp add: spec_monthly_sessions_def)

lemma monthly_sessions_west_of_utc:
  assumes "schedule_type p = ''monthly''" and "\<not> nullish (schedule_data p)"
    and "new_Date rt (start_date p) = Some (zs * msPerDay)"
    and "new_Date rt (end_date p) = Some (ze * msPerDay)"
    and "\<And>t u. LocalTZA rt t u = off" and "- msPerDay \<le> off" and "off < 0"
  shows "build_sessions rt p =
    Inr (concat (map (\<lambda>d. monthly_day (id_plan p) (schedule_data p) (d - 1) d) [zs..ze]))"
  using monthly_sessions [OF assms(1-5)] local_day_west [of rt off, OF assms(5-7)] by simp

text \<open>
  So east of UTC, in a zone that keeps one offset, the sessions built (none when the
  expansion throws) are those the specification describes, whatever the payload is, and
  no date occurs twice among them.
\<close>

lemma weekly_day_nullish: "nullish sched \<Longrightarrow> weekly_day pid sched l z = []"
  by (cases sched) (simp_all add: weekly_day_def nullish_def Let_def)

lemma monthly_day_nullish: "nullish sched \<Longrightarrow> monthly_day pid sched l z = []"
  by (cases sched) (simp_all add: monthly_day_def nullish_def Let_def)

lemma matching_weekly_east_of_utc:
  assumes "schedule_type p = ''weekly''"
    and "new_Date rt (start_date p) = Some (zs * msPerDay)"
    and "new_Date rt (end_date p) = Some (ze * msPerDay)"
    and "\<And>t u. LocalTZA rt t u = off" and "0 \<le> off" and "off < msPerDay"
  shows "matching rt p = spec_weekly_sessions p zs ze"
proof (cases "nullish (schedule_data p)")
  case True
  have "build_sessions rt p = Inl TypeError \<or> build_sessions rt p = Inr []"
    using weekly_loop_throw [OF True] weekly_loop_stop
    by (cases "date_le (new_Date rt (start_date p)) (new_Date rt (end_date p))")
      (simp_all add: build_weekly assms(1))
  then have "matching rt p = []" by (auto simp: matching_def)
  then show ?thesis using True by (simp add: spec_weekly_sessions_def weekly_day_nullish)
next
  case False
  then show ?thesis
    using weekly_sessions_east_of_utc [OF assms(1) False assms(2-6)] by (simp add: matching_def)
qed

lemma matching_monthly_east_of_utc:
  assumes "schedule_type p = ''monthly''"
    and "new_Date rt (start_date p) = Some (zs * msPerDay)"
    and "new_Date rt (end_date p) = Some (ze * msPerDay)"
    and "\<And>t u. LocalTZA rt t u = off" and "0 \<le> off" and "off < msPerDay"
  shows "matching rt p = spec_monthly_sessions p zs ze"
proof (cases "nullish (schedule_data p)")
  case True
  have "build_sessions rt p = Inl TypeError \<or> build_sessions rt p = Inr []"
    using monthly_loop_throw [OF True] monthly_loop_stop
    by (cases "date_le (new_Date rt (start_date p)) (new_Date rt (end_date p))")
      (simp_all add: build_monthly assms(1))
  then have "matching rt p = []" by (auto simp: matching_def)
  then show ?thesis using True by (simp add: spec_monthly_sessions_def monthly_day_nullish)
next
  case False
  then show ?thesis
    using monthly_sessions_east_of_utc [OF assms(1) False assms(2-6)] by (simp add: matching_def)
qed

lemma read_date_day_str:
  assumes "- 100000000 \<le> z" and "z \<le> 100000000"
  shows "read_date (day_str z) = Some z"
proof -
  have "\<bar>z * msPerDay\<bar> \<le> maxTime"
    using assms by (simp add: msPerDay_def maxTime_def abs_le_iff)
  then have "read_date (iso_date (z * msPerDay)) = Some (Day (z * msPerDay))"
    by (rule read_date_iso_date)
  then show ?thesis by (simp add: day_str_def Day_def msPerDay_def)
qed

lemma day_str_distinct:
  assumes "- 100000000 \<le> zs" and "ze \<le> 100000000"
  shows "distinct (map (\<lambda>d. JStr (day_str d)) (filter P [zs..ze]))"
proof -
  have "inj_on (\<lambda>d. JStr (day_str d)) (set (filter P [zs..ze]))"
  proof (rule inj_onI)
    fix a b
    assume a: "a \<in> set (filter P [zs..ze])" and b: "b \<in> set (filter P [zs..ze])"
      and eq: "JStr (day_str a) = JStr (day_str b)"
    have ra: "read_date (day_str a) = Some a" using a assms by (intro read_date_day_str) simp_all
    have rb: "read_date (day_str b) = Some b" using b assms by (intro read_date_day_str) simp_all
    from eq have "read_date (day_str a) = read_date (day_str b)" by simp
    then show "a = b" unfolding ra rb by simp
  qed
  then show ?thesis by (simp add: distinct_map)
qed

lemma spec_weekly_dates:
  "map scheduled_date (concat (map (\<lambda>d. weekly_day pid sched d d) ds)) =
     map (\<lambda>d. JStr (day_str d)) (filter (\<lambda>d. truthy (own_prop sched (weekday_of_day d))) ds)"
  by (induction ds) (simp_all add: weekly_day_def Let_def weekly_row_def)

lemma spec_monthly_dates:
  "map scheduled_date (concat (map (\<lambda>d. monthly_day pid sched d d) ds)) =
     map (\<lambda>d. JStr (day_str d))
       (filter (\<lambda>d. truthy (own_index sched (nat ((day_of_month d + 6) div 7)))
                    \<and> truthy (own_prop (own_index sched (nat ((day_of_month d + 6) div 7)))
                          (weekday_of_day d))) ds)"
  by (induction ds) (simp_all add: monthly_day_def Let_def monthly_row_def)

lemma spec_weekly_distinct:
  "- 100000000 \<le> zs \<Longrightarrow> ze \<le> 100000000 \<Longrightarrow>
   distinct (map scheduled_date (spec_weekly_sessions p zs ze))"
  unfolding spec_weekly_sessions_def spec_weekly_dates by (rule day_str_distinct)

lemma spec_monthly_distinct:
  "- 100000000 \<le> zs \<Longrightarrow> ze \<le> 100000000 \<Longrightarrow>
   distinct (map scheduled_date (spec_monthly_sessions p zs ze))"
  unfolding spec_monthly_sessions_def spec_monthly_dates by (rule day_str_distinct)

text \<open>After finitely many advances the loop guard is false.\<close>

lemma guard_fails_eventually: "\<exists>n. \<not> date_le ((advance rt ^^ n) c) e"
proof (induction "time_left c e" arbitrary: c rule: less_induct)
  case less
  show ?case
  proof (cases "date_le c e")
    case False
    then have "\<not> date_le ((advance rt ^^ 0) c) e" by simp
    then show ?thesis by blast
  next
    case True
    from less [OF advance_decreases [OF True]]
    obtain n where "\<not> date_le ((advance rt ^^ n) (advance rt c)) e" by blast
    then have "\<not> date_le ((advance rt ^^ Suc n) c) e" by (simp add: funpow_swap1)
    then show ?thesis by blast
  qed
qed

section \<open>Claims\<close>

text \<open>
  C1. The claim: for a weekly plan with valid dates, one session is built for each
  calendar day of the range whose weekday name is mapped to a non-empty value, dated that
  day and labelled with that weekday; the plan 2024-01-01 to 2024-01-14 with Monday and
  Wednesday mapped gives the sessions of 2024-01-01, 2024-01-03, 2024-01-08 and 2024-01-10.
  The code takes the weekday from the local date and the session's date from the UTC date
  of the same instant. With the local zone at UTC the example gives the four sessions of
  the claim; eight hours west of UTC, and in America/Los_Angeles, the same plan gives
  2024-01-02 labelled Monday, 2024-01-04 labelled Wednesday, 2024-01-09 and 2024-01-11:
  none of the claimed days, and Tuesdays and Thursdays in their place. For every plan
  whose dates are read as midnight UTC, in a zone that keeps one offset,
  \<open>weekly_sessions_east_of_utc\<close> gives the sessions of the claim
  (\<open>spec_weekly_sessions\<close>) at an offset from zero up to a day east of UTC, and
  \<open>weekly_sessions_west_of_utc\<close> gives each day of the range under the previous day's
  weekday at an offset west of UTC.
\<close>

theorem weekly_example_west_of_utc:
  "build_sessions (fixed_runtime 0) weekly_example =
     Inr [weekly_row ''P'' (JStr ''T1'') ''2024-01-01'' ''Monday'',
          weekly_row ''P'' (JStr ''T2'') ''2024-01-03'' ''Wednesday'',
          weekly_row ''P'' (JStr ''T1'') ''2024-01-08'' ''Monday'',
          weekly_row ''P'' (JStr ''T2'') ''2024-01-10'' ''Wednesday'']
   \<and> build_sessions (fixed_runtime utc_minus_8) weekly_example =
     Inr [weekly_row ''P'' (JStr ''T1'') ''2024-01-02'' ''Monday'',
          weekly_row ''P'' (JStr ''T2'') ''2024-01-04'' ''Wednesday'',
          weekly_row ''P'' (JStr ''T1'') ''2024-01-09'' ''Monday'',
          weekly_row ''P'' (JStr ''T2'') ''2024-01-11'' ''Wednesday'']
   \<and> build_sessions los_angeles_2024 weekly_example =
     Inr [weekly_row ''P'' (JStr ''T1'') ''2024-01-02'' ''Monday'',
          weekly_row ''P'' (JStr ''T2'') ''2024-01-04'' ''Wednesday'',
          weekly_row ''P'' (JStr ''T1'') ''2024-01-09'' ''Monday'',
          weekly_row ''P'' (JStr ''T2'') ''2024-01-11'' ''Wednesday'']"
  by code_simp

text \<open>
  C2. The claim: the sessions of a weekly or monthly plan are exactly the days of the range
  with a mapped template, those of a custom plan exactly the entries given; no day is emitted
  twice, and for weekly and monthly plans no day outside the range. A custom list with two
  entries on one day gives that day twice. A weekly plan from 2024-03-08 to 2024-03-12
  with Saturday and Sunday mapped has two days with a mapped template, Saturday 2024-03-09
  and Sunday 2024-03-10 (\<open>spec_weekly_sessions\<close>); in America/Los_Angeles the code gives
  2024-03-10 twice, labelled Saturday and Sunday, and 2024-03-09 never: the walk is at
  2024-03-10T00:00Z on the local Saturday and, a local day later and daylight saving time
  having begun, at 2024-03-10T23:00Z on the local Sunday.
\<close>

theorem day_emitted_twice:
  "build_sessions (fixed_runtime 0) duplicate_example =
     Inr [custom_row ''P'' (JStr ''X'') (JStr ''2024-05-05'') JUndefined,
          custom_row ''P'' (JStr ''Y'') (JStr ''2024-05-05'') JUndefined]
   \<and> \<not> distinct (map scheduled_date (matching (fixed_runtime 0) duplicate_example))
   \<and> new_Date los_angeles_2024 (start_date dst_example) = Some (19790 * msPerDay)
   \<and> new_Date los_angeles_2024 (end_date dst_example) = Some (19794 * msPerDay)
   \<and> spec_weekly_sessions dst_example 19790 19794 =
     [weekly_row ''P'' (JStr ''T1'') ''2024-03-09'' ''Saturday'',
      weekly_row ''P'' (JStr ''T2'') ''2024-03-10'' ''Sunday'']
   \<and> build_sessions los_angeles_2024 dst_example =
     Inr [weekly_row ''P'' (JStr ''T1'') ''2024-03-10'' ''Saturday'',
          weekly_row ''P'' (JStr ''T2'') ''2024-03-10'' ''Sunday'']
   \<and> \<not> distinct (map scheduled_date (matching los_angeles_2024 dst_example))"
  by code_simp

text \<open>
  C2, amended: for a weekly or monthly plan every \<open>scheduled_date\<close> is a calendar day
  from the UTC date of \<open>start_date\<close> to the UTC date of \<open>end_date\<close> (for a date
  written without a time, that date), in every time zone and for every \<open>Date.parse\<close>.
  Where the local date is the UTC date throughout the walk, that is in a time zone that
  keeps one offset from zero up to a day east of UTC with both dates read as midnight UTC,
  the sessions of a weekly or monthly plan are exactly the days of the range with a mapped
  template, each once. For a custom plan whose list has no \<open>undefined\<close> or \<open>null\<close>
  element the sessions are exactly the entries with \<open>date\<close> and \<open>templateId\<close> set,
  in their order, a day as often as it occurs among them. What a weekly or monthly plan
  builds in other time zones is the subject of C1 and C3.
\<close>

theorem walk_days_in_range:
  "((schedule_type p = ''weekly'' \<or> schedule_type p = ''monthly'')
      \<and> build_sessions rt p = Inr ss \<longrightarrow>
        list_all (within_range rt p) (map scheduled_date ss))
   \<and> ((\<forall>t u. LocalTZA rt t u = off) \<and> 0 \<le> off \<and> off < msPerDay
        \<and> new_Date rt (start_date p) = Some (zs * msPerDay)
        \<and> new_Date rt (end_date p) = Some (ze * msPerDay) \<longrightarrow>
        (schedule_type p = ''weekly'' \<longrightarrow>
           matching rt p = spec_weekly_sessions p zs ze
           \<and> distinct (map scheduled_date (matching rt p)))
        \<and> (schedule_type p = ''monthly'' \<longrightarrow>
           matching rt p = spec_monthly_sessions p zs ze
           \<and> distinct (map scheduled_date (matching rt p))))
   \<and> (schedule_type p = ''custom'' \<and> schedule_data p = JArr es \<and> (\<forall>e \<in> set es. \<not> nullish e) \<longrightarrow>
        build_sessions rt p = Inr (map (entry_row (id_plan p)) (filter entry_set es)))"
proof -
  have east: "(schedule_type p = ''weekly'' \<longrightarrow>
           matching rt p = spec_weekly_sessions p zs ze
           \<and> distinct (map scheduled_date (matching rt p)))
        \<and> (schedule_type p = ''monthly'' \<longrightarrow>
           matching rt p = spec_monthly_sessions p zs ze
           \<and> distinct (map scheduled_date (matching rt p)))"
    if z: "\<forall>t u. LocalTZA rt t u = off" and o: "0 \<le> off" "off < msPerDay"
      and s: "new_Date rt (start_date p) = Some (zs * msPerDay)"
      and e: "new_Date rt (end_date p) = Some (ze * msPerDay)"
  proof -
    have z': "\<And>t u. LocalTZA rt t u = off" using z by simp
    have b: "- 100000000 \<le> zs" "ze \<le> 100000000"
      using whole_day_bound [OF s] whole_day_bound [OF e] by simp_all
    have w: "matching rt p = spec_weekly_sessions p zs ze" if "schedule_type p = ''weekly''"
      using that s e z' o by (rule matching_weekly_east_of_utc)
    have m: "matching rt p = spec_monthly_sessions p zs ze" if "schedule_type p = ''monthly''"
      using that s e z' o by (rule matching_monthly_east_of_utc)
    show ?thesis
      using w m spec_weekly_distinct [OF b, of p] spec_monthly_distinct [OF b, of p] by simp
  qed
  have range: "(schedule_type p = ''weekly'' \<or> schedule_type p = ''monthly'')
      \<and> build_sessions rt p = Inr ss \<longrightarrow>
        list_all (within_range rt p) (map scheduled_date ss)"
    using walk_within_range [of p rt ss] by simp
  have custom: "schedule_type p = ''custom'' \<and> schedule_data p = JArr es
      \<and> (\<forall>e \<in> set es. \<not> nullish e) \<longrightarrow>
        build_sessions rt p = Inr (map (entry_row (id_plan p)) (filter entry_set es))"
    using forEach_custom_ok [of es "id_plan p" "[]"] build_custom [of p es rt] by simp
  show ?thesis
    by (intro conjI impI range custom east) simp_all
qed

theorem walk_days_in_range_witness:
  "list_all (within_range los_angeles_2024 dst_example) [JStr ''2024-03-10'', JStr ''2024-03-10'']
   \<and> matching (fixed_runtime utc_plus_5_30) weekly_example =
       [weekly_row ''P'' (JStr ''T1'') ''2024-01-01'' ''Monday'',
        weekly_row ''P'' (JStr ''T2'') ''2024-01-03'' ''Wednesday'',
        weekly_row ''P'' (JStr ''T1'') ''2024-01-08'' ''Monday'',
        weekly_row ''P'' (JStr ''T2'') ''2024-01-10'' ''Wednesday'']
   \<and> distinct (map scheduled_date (matching (fixed_runtime utc_plus_5_30) weekly_example))
   \<and> matching (fixed_runtime utc_plus_5_30) monthly_example =
       [monthly_row ''P'' (JStr ''T1'') ''2024-03-01'' ''Friday'' 1]
   \<and> build_sessions (fixed_runtime 0) duplicate_example =
       Inr (map (entry_row ''P'')
         (filter entry_set
           [JObj [(''date'', JStr ''2024-05-05''), (''templateId'', JStr ''X'')],
            JObj [(''date'', JStr ''2024-05-05''), (''templateId'', JStr ''Y'')]]))"
proof -
  have b: "build_sessions los_angeles_2024 dst_example =
     Inr [weekly_row ''P'' (JStr ''T1'') ''2024-03-10'' ''Saturday'',
          weekly_row ''P'' (JStr ''T2'') ''2024-03-10'' ''Sunday'']"
    by code_simp
  have w: "schedule_type dst_example = ''weekly''" by (simp add: dst_example_def)
  have z: "\<forall>t u. LocalTZA (fixed_runtime utc_plus_5_30) t u = utc_plus_5_30"
    by (simp add: LocalTZA_fixed_runtime)
  have o: "0 \<le> utc_plus_5_30" "utc_plus_5_30 < msPerDay"
    by (simp_all add: utc_plus_5_30_def msPerDay_def)
  have ws: "new_Date (fixed_runtime utc_plus_5_30) (start_date weekly_example) = Some (19723 * msPerDay)"
    "new_Date (fixed_runtime utc_plus_5_30) (end_date weekly_example) = Some (19736 * msPerDay)"
    by code_simp+
  have ms: "new_Date (fixed_runtime utc_plus_5_30) (start_date monthly_example) = Some (19783 * msPerDay)"
    "new_Date (fixed_runtime utc_plus_5_30) (end_date monthly_example) = Some (19813 * msPerDay)"
    by code_simp+
  have t: "schedule_type weekly_example = ''weekly''" "schedule_type monthly_example = ''monthly''"
    by (simp_all add: weekly_example_def monthly_example_def)
  have sw: "spec_weekly_sessions weekly_example 19723 19736 =
       [weekly_row ''P'' (JStr ''T1'') ''2024-01-01'' ''Monday'',
        weekly_row ''P'' (JStr ''T2'') ''2024-01-03'' ''Wednesday'',
        weekly_row ''P'' (JStr ''T1'') ''2024-01-08'' ''Monday'',
        weekly_row ''P'' (JStr ''T2'') ''2024-01-10'' ''Wednesday'']"
    by code_simp
  have sm: "spec_monthly_sessions monthly_example 19783 19813 =
       [monthly_row ''P'' (JStr ''T1'') ''2024-03-01'' ''Friday'' 1]"
    by code_simp
  have c: "schedule_type duplicate_example = ''custom''"
    "schedule_data duplicate_example =
       JArr [JObj [(''date'', JStr ''2024-05-05''), (''templateId'', JStr ''X'')],
             JObj [(''date'', JStr ''2024-05-05''), (''templateId'', JStr ''Y'')]]"
    "id_plan duplicate_example = ''P''"
    by (simp_all add: duplicate_example_def)
  have n: "\<forall>e \<in> set [JObj [(''date'', JStr ''2024-05-05''), (''templateId'', JStr ''X'')],
             JObj [(''date'', JStr ''2024-05-05''), (''templateId'', JStr ''Y'')]]. \<not> nullish e"
    by (simp add: nullish_def)
  have 1: "list_all (within_range los_angeles_2024 dst_example) (map scheduled_date
          [weekly_row ''P'' (JStr ''T1'') ''2024-03-10'' ''Saturday'',
           weekly_row ''P'' (JStr ''T2'') ''2024-03-10'' ''Sunday''])"
    using walk_days_in_range [THEN conjunct1, rule_format, where p = dst_example
        and rt = los_angeles_2024] w b
    by blast
  have 2: "matching (fixed_runtime utc_plus_5_30) weekly_example
        = spec_weekly_sessions weekly_example 19723 19736
      \<and> distinct (map scheduled_date (matching (fixed_runtime utc_plus_5_30) weekly_example))"
    using walk_days_in_range [THEN conjunct2, THEN conjunct1, rule_format, THEN conjunct1,
        rule_format, where p = weekly_example and rt = "fixed_runtime utc_plus_5_30"
        and off = utc_plus_5_30 and zs = 19723 and ze = 19736] z o ws t(1)
    by blast
  have 3: "matching (fixed_runtime utc_plus_5_30) monthly_example
        = spec_monthly_sessions monthly_example 19783 19813"
    using walk_days_in_range [THEN conjunct2, THEN conjunct1, rule_format, THEN conjunct2,
        rule_format, where p = monthly_example and rt = "fixed_runtime utc_plus_5_30"
        and off = utc_plus_5_30 and zs = 19783 and ze = 19813] z o ms t(2)
    by blast
  have 4: "build_sessions (fixed_runtime 0) duplicate_example =
       Inr (map (entry_row (id_plan duplicate_example))
         (filter entry_set
           [JObj [(''date'', JStr ''2024-05-05''), (''templateId'', JStr ''X'')],
            JObj [(''date'', JStr ''2024-05-05''), (''templateId'', JStr ''Y'')]]))"
    using walk_days_in_range [THEN conjunct2, THEN conjunct2, rule_format,
        where p = duplicate_example and rt = "fixed_runtime 0"] c(1,2) n
    by blast
  have r: "list_all (within_range los_angeles_2024 dst_example)
      [JStr ''2024-03-10'', JStr ''2024-03-10'']"
    using 1 by (simp add: weekly_row_def)
  show ?thesis
    using r 2 3 4 unfolding sw sm c(3) by blast
qed

text \<open>
  C3. The claim: for a monthly plan with valid dates, each day of the range gets
  \<open>week_number = ceil(day_of_month / 7)\<close> and a session exactly when
  \<open>schedule_data[week_number][weekday]\<close> exists; the plan 2024-03-01 to 2024-03-31
  with Friday of week 1 mapped gives the one session of 2024-03-01.
  The day of the month and the weekday are those of the local date, the session's date is
  the UTC date. With the local zone at UTC the example gives 2024-03-01; eight hours west
  of UTC, and in America/Los_Angeles, it gives one session dated 2024-03-02, a Saturday,
  labelled Friday of week 1. The week number is always from 1 to 5
  (\<open>week_of_month_range\<close>, \<open>local_week_range\<close>); for every plan whose dates are read as
  midnight UTC, in a zone that keeps one offset, \<open>monthly_sessions_east_of_utc\<close> and
  \<open>monthly_sessions_west_of_utc\<close> give the sessions east and west of UTC.
\<close>

theorem monthly_example_west_of_utc:
  "build_sessions (fixed_runtime 0) monthly_example =
     Inr [monthly_row ''P'' (JStr ''T1'') ''2024-03-01'' ''Friday'' 1]
   \<and> build_sessions (fixed_runtime utc_minus_8) monthly_example =
       Inr [monthly_row ''P'' (JStr ''T1'') ''2024-03-02'' ''Friday'' 1]
   \<and> build_sessions los_angeles_2024 monthly_example =
       Inr [monthly_row ''P'' (JStr ''T1'') ''2024-03-02'' ''Friday'' 1]"
  by code_simp

text \<open>
  C4. The claim: for a custom plan whose \<open>schedule_data\<close> is a list, one session is
  built per entry with both \<open>date\<close> and \<open>templateId\<close> set, copying \<open>date\<close>,
  \<open>templateId\<close> and \<open>label\<close>, whatever the plan's range; other entries are skipped.
  A \<open>null\<close> element of the list is not skipped: reading its \<open>date\<close> throws, nothing
  is built, not even the entries before it, and the call returns \<open>false\<close>.
\<close>

theorem custom_null_entry:
  "build_sessions (fixed_runtime 0) null_entry_example = Inl TypeError
   \<and> generatePlanSessions (fixed_runtime 0) accept_all null_entry_example empty_store
       = (False, empty_store)"
  by code_simp

text \<open>
  C4, amended: for a custom plan whose \<open>schedule_data\<close> is a list with no
  \<open>undefined\<close> or \<open>null\<close> element, the sessions built are the rows of the entries
  with both \<open>date\<close> and \<open>templateId\<close> truthy, in the order of the list, whatever
  \<open>start_date\<close> and \<open>end_date\<close> are.
\<close>

theorem custom_entries:
  assumes "schedule_type p = ''custom''" and "schedule_data p = JArr es"
    and "\<forall>e \<in> set es. \<not> nullish e"
  shows "build_sessions rt p = Inr (map (entry_row (id_plan p)) (filter entry_set es))"
  using assms by (simp add: build_custom forEach_custom_ok)

theorem custom_entries_witness:
  "build_sessions (fixed_runtime 0) custom_example =
     Inr [custom_row ''P'' (JStr ''X'') (JStr ''2024-05-05'') (JStr ''Cheat day'')]"
  using custom_entries [of custom_example
      "[JObj [(''date'', JStr ''2024-05-05''), (''templateId'', JStr ''X''), (''label'', JStr ''Cheat day'')]]"
      "fixed_runtime 0"]
  by (simp add: custom_example_def nullish_def entry_row_def entry_set_def)

text \<open>
  C5. For a weekly or monthly plan whose \<open>end_date\<close> is before its \<open>start_date\<close>,
  whatever \<open>schedule_data\<close> is, no session is built, the store is left as it was (no
  batch is submitted), and the result is \<open>true\<close>.
\<close>

theorem empty_range:
  assumes "schedule_type p = ''weekly'' \<or> schedule_type p = ''monthly''"
    and "new_Date rt (start_date p) = Some s" and "new_Date rt (end_date p) = Some e" and "e < s"
  shows "build_sessions rt p = Inr [] \<and> generatePlanSessions rt reply p db = (True, db)"
proof -
  have "\<not> date_le (new_Date rt (start_date p)) (new_Date rt (end_date p))"
    using assms(2-4) by (simp add: date_le_Some)
  then have "build_sessions rt p = Inr []"
    using assms(1) by (auto simp: build_weekly build_monthly weekly_loop_stop monthly_loop_stop)
  then show ?thesis by (simp add: generate_empty)
qed

theorem empty_range_witness:
  "build_sessions (fixed_runtime utc_minus_8) reversed_example = Inr []
   \<and> generatePlanSessions (fixed_runtime utc_minus_8) accept_all reversed_example empty_store
       = (True, empty_store)"
proof -
  have t: "schedule_type reversed_example = ''weekly'' \<or> schedule_type reversed_example = ''monthly''"
    by (simp add: reversed_example_def)
  have s: "new_Date (fixed_runtime utc_minus_8) (start_date reversed_example) = Some 1705190400000"
    by code_simp
  have e: "new_Date (fixed_runtime utc_minus_8) (end_date reversed_example) = Some 1704067200000"
    by code_simp
  show ?thesis
    by (rule empty_range [OF t s e]) simp
qed

text \<open>
  C6. The claim: \<open>generatePlanSessions\<close> returns \<open>false\<close> only when the insert call
  fails; malformed recurrence data never causes failure. A weekly plan with a non-empty
  range and \<open>schedule_data = null\<close> returns \<open>false\<close> on a store that accepts every
  batch, and no batch is submitted; so it does when its dates are written with a time.
\<close>

theorem null_schedule_fails:
  "generatePlanSessions (fixed_runtime 0) accept_all null_schedule_example empty_store
     = (False, empty_store)
   \<and> generatePlanSessions los_angeles_2024 accept_all timestamp_example empty_store
     = (False, empty_store)"
  by code_simp

text \<open>
  C6, amended: the result is \<open>false\<close> exactly when the expansion throws or a non-empty
  batch is submitted and not accepted. The expansion throws, a TypeError, exactly when
  \<open>schedule_data\<close> is \<open>undefined\<close> or \<open>null\<close> on a weekly or monthly plan whose
  walk runs at least once (both dates valid, the start not after the end), or when a
  custom list holds an \<open>undefined\<close> or \<open>null\<close> element; every other payload gives a
  sequence of sessions. The result is a boolean and a store: no exception leaves the
  function. This holds in every time zone and for every \<open>Date.parse\<close>.
\<close>

theorem failure_cases:
  "(fst (generatePlanSessions rt reply p db) = False \<longleftrightarrow>
      build_sessions rt p = Inl TypeError
      \<or> (\<exists>ss. build_sessions rt p = Inr ss \<and> ss \<noteq> [] \<and> reply ss \<noteq> Accepted))
   \<and> (build_sessions rt p = Inl x \<longleftrightarrow>
        x = TypeError
        \<and> ((schedule_type p = ''weekly'' \<or> schedule_type p = ''monthly'')
             \<and> nullish (schedule_data p)
             \<and> date_le (new_Date rt (start_date p)) (new_Date rt (end_date p))
           \<or> schedule_type p = ''custom''
             \<and> (\<exists>es. schedule_data p = JArr es \<and> (\<exists>e \<in> set es. nullish e))))"
proof -
  have b: "build_sessions rt p = Inl x \<longleftrightarrow>
        x = TypeError
        \<and> ((schedule_type p = ''weekly'' \<or> schedule_type p = ''monthly'')
             \<and> nullish (schedule_data p)
             \<and> date_le (new_Date rt (start_date p)) (new_Date rt (end_date p))
           \<or> schedule_type p = ''custom''
             \<and> (\<exists>es. schedule_data p = JArr es \<and> (\<exists>e \<in> set es. nullish e)))" for x
  proof -
    consider (w) "schedule_type p = ''weekly''" | (m) "schedule_type p = ''monthly''"
      | (c) es where "schedule_type p = ''custom''" "schedule_data p = JArr es"
      | (d) "schedule_type p = ''custom''" "\<forall>es. schedule_data p \<noteq> JArr es"
      | (o) "schedule_type p \<noteq> ''weekly''" "schedule_type p \<noteq> ''monthly''" "schedule_type p \<noteq> ''custom''"
      by blast
    then show ?thesis
    proof cases
      case w
      then show ?thesis by (simp add: build_weekly weekly_loop_Inl)
    next
      case m
      then show ?thesis by (simp add: build_monthly monthly_loop_Inl)
    next
      case c
      then show ?thesis by (simp add: build_custom forEach_custom_Inl)
    next
      case d
      then show ?thesis by (simp add: build_custom_other)
    next
      case o
      then show ?thesis by (simp add: build_other)
    qed
  qed
  have a: "fst (generatePlanSessions rt reply p db) = False \<longleftrightarrow>
      build_sessions rt p = Inl TypeError
      \<or> (\<exists>ss. build_sessions rt p = Inr ss \<and> ss \<noteq> [] \<and> reply ss \<noteq> Accepted)"
  proof (cases "build_sessions rt p")
    case (Inl y)
    then have "y = TypeError" using b [of y] by simp
    then show ?thesis using Inl by (simp add: generate_throw)
  next
    case (Inr ss)
    show ?thesis
    proof (cases "ss = []")
      case True
      then show ?thesis using Inr by (simp add: generate_empty)
    next
      case False
      show ?thesis
      proof (cases "reply ss = Accepted")
        case True
        then show ?thesis using Inr False by (simp add: generate_accepted)
      next
        case F: False
        then show ?thesis using Inr False by (simp add: generate_not_accepted)
      qed
    qed
  qed
  show ?thesis using a b by blast
qed

text \<open>
  C7. The claim: for every schedule type the sessions are built in ascending order of
  \<open>scheduled_date\<close>. A custom plan keeps the order of its entries, ascending or not.
\<close>

theorem custom_out_of_order:
  "build_sessions (fixed_runtime 0) unordered_example =
     Inr [custom_row ''P'' (JStr ''X'') (JStr ''2024-05-05'') JUndefined,
          custom_row ''P'' (JStr ''Y'') (JStr ''2024-01-01'') JUndefined]
   \<and> \<not> sorted_wrt date_not_after (map scheduled_date (matching (fixed_runtime 0) unordered_example))"
  by code_simp

text \<open>
  C7, amended: the sessions of a weekly or monthly plan are in ascending order of
  \<open>scheduled_date\<close>, no session dated before one built earlier (two sessions may
  bear the same date, as across the change to daylight saving time); the sessions of a
  custom plan (list without \<open>undefined\<close> or \<open>null\<close> element) are in the order of
  the entry list. This holds in every time zone and for every \<open>Date.parse\<close>.
\<close>

theorem walk_ascending:
  "((schedule_type p = ''weekly'' \<or> schedule_type p = ''monthly'')
      \<and> build_sessions rt p = Inr ss \<longrightarrow> sorted_wrt date_not_after (map scheduled_date ss))
   \<and> (schedule_type p = ''custom'' \<and> schedule_data p = JArr es \<and> (\<forall>e \<in> set es. \<not> nullish e) \<longrightarrow>
        build_sessions rt p = Inr (map (entry_row (id_plan p)) (filter entry_set es)))"
  using walk_sorted [of p rt ss] forEach_custom_ok [of es "id_plan p" "[]"] build_custom [of p es rt]
  by simp

theorem walk_ascending_witness:
  "sorted_wrt date_not_after
        [JStr ''2024-03-08'', JStr ''2024-03-09'', JStr ''2024-03-10'', JStr ''2024-03-10'',
         JStr ''2024-03-11'']
   \<and> build_sessions (fixed_runtime 0) unordered_example =
       Inr (map (entry_row ''P'')
         (filter entry_set
           [JObj [(''date'', JStr ''2024-05-05''), (''templateId'', JStr ''X'')],
            JObj [(''date'', JStr ''2024-01-01''), (''templateId'', JStr ''Y'')]]))"
proof -
  have b: "build_sessions los_angeles_2024 every_day_example =
     Inr [weekly_row ''P'' (JStr ''T'') ''2024-03-08'' ''Thursday'',
          weekly_row ''P'' (JStr ''T'') ''2024-03-09'' ''Friday'',
          weekly_row ''P'' (JStr ''T'') ''2024-03-10'' ''Saturday'',
          weekly_row ''P'' (JStr ''T'') ''2024-03-10'' ''Sunday'',
          weekly_row ''P'' (JStr ''T'') ''2024-03-11'' ''Monday'']"
    by code_simp
  have w: "schedule_type every_day_example = ''weekly''" by (simp add: every_day_example_def)
  have c: "schedule_type unordered_example = ''custom''"
    "schedule_data unordered_example =
       JArr [JObj [(''date'', JStr ''2024-05-05''), (''templateId'', JStr ''X'')],
             JObj [(''date'', JStr ''2024-01-01''), (''templateId'', JStr ''Y'')]]"
    "id_plan unordered_example = ''P''"
    by (simp_all add: unordered_example_def)
  have n: "\<forall>e \<in> set [JObj [(''date'', JStr ''2024-05-05''), (''templateId'', JStr ''X'')],
             JObj [(''date'', JStr ''2024-01-01''), (''templateId'', JStr ''Y'')]]. \<not> nullish e"
    by (simp add: nullish_def)
  have 1: "sorted_wrt date_not_after (map scheduled_date
         [weekly_row ''P'' (JStr ''T'') ''2024-03-08'' ''Thursday'',
          weekly_row ''P'' (JStr ''T'') ''2024-03-09'' ''Friday'',
          weekly_row ''P'' (JStr ''T'') ''2024-03-10'' ''Saturday'',
          weekly_row ''P'' (JStr ''T'') ''2024-03-10'' ''Sunday'',
          weekly_row ''P'' (JStr ''T'') ''2024-03-11'' ''Monday''])"
    using walk_ascending [THEN conjunct1, rule_format, where p = every_day_example
        and rt = los_angeles_2024] w b
    by blast
  have 2: "build_sessions (fixed_runtime 0) unordered_example =
       Inr (map (entry_row (id_plan unordered_example))
         (filter entry_set
           [JObj [(''date'', JStr ''2024-05-05''), (''templateId'', JStr ''X'')],
            JObj [(''date'', JStr ''2024-01-01''), (''templateId'', JStr ''Y'')]]))"
    using walk_ascending [THEN conjunct2, rule_format, where p = unordered_example
        and rt = "fixed_runtime 0"] c(1,2) n
    by blast
  show ?thesis using 1 2 by (simp add: weekly_row_def c(3) del: sorted_wrt.simps)
qed

text \<open>
  C8. Two calls on the same plan with no deletion in between, on a store that accepts both
  batches, leave the rows that were there followed by the matching sessions twice: the
  expansion does not read the store. With \<open>deletePlanSessions\<close> between the calls one
  set is left (\<open>delete_then_regenerate\<close>).
\<close>

theorem regenerate_duplicates:
  assumes "reply1 (matching rt p) = Accepted" and "reply2 (matching rt p) = Accepted"
  shows "plan_sessions (snd (generatePlanSessions rt reply2 p
             (snd (generatePlanSessions rt reply1 p db))))
         = plan_sessions db @ matching rt p @ matching rt p"
proof (cases "build_sessions rt p")
  case (Inl x)
  then show ?thesis by (simp add: generate_throw matching_def)
next
  case (Inr ss)
  then have m: "matching rt p = ss" by (simp add: matching_def)
  show ?thesis
  proof (cases "ss = []")
    case True
    then show ?thesis using Inr m by (simp add: generate_empty)
  next
    case False
    then show ?thesis using Inr m assms by (simp add: generate_accepted)
  qed
qed

theorem regenerate_duplicates_witness:
  "plan_sessions (snd (generatePlanSessions (fixed_runtime 0) accept_all weekly_example
             (snd (generatePlanSessions (fixed_runtime 0) accept_all weekly_example empty_store))))
   = [weekly_row ''P'' (JStr ''T1'') ''2024-01-01'' ''Monday'',
      weekly_row ''P'' (JStr ''T2'') ''2024-01-03'' ''Wednesday'',
      weekly_row ''P'' (JStr ''T1'') ''2024-01-08'' ''Monday'',
      weekly_row ''P'' (JStr ''T2'') ''2024-01-10'' ''Wednesday'',
      weekly_row ''P'' (JStr ''T1'') ''2024-01-01'' ''Monday'',
      weekly_row ''P'' (JStr ''T2'') ''2024-01-03'' ''Wednesday'',
      weekly_row ''P'' (JStr ''T1'') ''2024-01-08'' ''Monday'',
      weekly_row ''P'' (JStr ''T2'') ''2024-01-10'' ''Wednesday'']"
proof -
  have m: "matching (fixed_runtime 0) weekly_example =
     [weekly_row ''P'' (JStr ''T1'') ''2024-01-01'' ''Monday'',
      weekly_row ''P'' (JStr ''T2'') ''2024-01-03'' ''Wednesday'',
      weekly_row ''P'' (JStr ''T1'') ''2024-01-08'' ''Monday'',
      weekly_row ''P'' (JStr ''T2'') ''2024-01-10'' ''Wednesday'']"
    by code_simp
  show ?thesis
    using regenerate_duplicates [of accept_all "fixed_runtime 0" weekly_example accept_all empty_store]
    by (simp add: m accept_all_def empty_store_def)
qed

text \<open>
  C9. The claim: custom sessions have neither \<open>day_of_week\<close> nor \<open>week_number\<close>, only
  the weekly branch sets \<open>day_of_week\<close>, only the monthly branch sets \<open>week_number\<close>,
  and every session has status \<open>scheduled\<close> and the plan's id. The monthly branch sets
  \<open>day_of_week\<close> too.
\<close>

theorem monthly_sets_day_of_week:
  "map day_of_week (matching (fixed_runtime 0) monthly_example) = [Some ''Friday'']"
  by code_simp

text \<open>
  C9, amended: every session built has status \<open>scheduled\<close> and \<open>plan_id\<close> equal to
  the plan's id; a custom session has neither \<open>day_of_week\<close> nor \<open>week_number\<close>; a
  weekly session has \<open>day_of_week\<close> and no \<open>week_number\<close>; a monthly session has both.
\<close>

theorem session_fields:
  assumes "build_sessions rt p = Inr ss" and "x \<in> set ss"
  shows "status x = ''scheduled'' \<and> plan_id x = id_plan p
    \<and> (schedule_type p = ''custom'' \<longrightarrow> day_of_week x = None \<and> week_number x = None)
    \<and> (schedule_type p = ''weekly'' \<longrightarrow>
          day_of_week x \<noteq> None \<and> week_number x = None \<and> notes_field x = None)
    \<and> (schedule_type p = ''monthly'' \<longrightarrow>
          day_of_week x \<noteq> None \<and> week_number x \<noteq> None \<and> notes_field x = None)"
proof -
  consider (w) "schedule_type p = ''weekly''" | (m) "schedule_type p = ''monthly''"
    | (c) "schedule_type p = ''custom''"
    | (o) "schedule_type p \<noteq> ''weekly''" "schedule_type p \<noteq> ''monthly''" "schedule_type p \<noteq> ''custom''"
    by blast
  then show ?thesis
  proof cases
    case w
    then have "weekly_loop rt (id_plan p) (schedule_data p) (new_Date rt (start_date p))
        (new_Date rt (end_date p)) [] = Inr ss"
      using assms(1) by (simp add: build_weekly)
    then have "list_all (weekly_inv (id_plan p)) ss"
      by (rule weekly_loop_inv) simp
    then have "weekly_inv (id_plan p) x" using assms(2) by (simp add: list_all_iff)
    then show ?thesis using w by (simp add: weekly_inv_def)
  next
    case m
    then have "monthly_loop rt (id_plan p) (schedule_data p) (new_Date rt (start_date p))
        (new_Date rt (end_date p)) [] = Inr ss"
      using assms(1) by (simp add: build_monthly)
    then have "list_all (monthly_inv (id_plan p)) ss"
      by (rule monthly_loop_inv) simp
    then have "monthly_inv (id_plan p) x" using assms(2) by (simp add: list_all_iff)
    then show ?thesis using m by (simp add: monthly_inv_def)
  next
    case c
    show ?thesis
    proof (cases "\<exists>es. schedule_data p = JArr es")
      case True
      then obtain es where es: "schedule_data p = JArr es" by blast
      then have "forEach_custom (id_plan p) es [] = Inr ss"
        using assms(1) c by (simp add: build_custom)
      then have "list_all (custom_inv (id_plan p)) ss"
        by (rule forEach_custom_inv) simp
      then have "custom_inv (id_plan p) x" using assms(2) by (simp add: list_all_iff)
      then show ?thesis using c by (simp add: custom_inv_def)
    next
      case False
      then have "ss = []" using assms(1) c by (simp add: build_custom_other)
      then show ?thesis using assms(2) by simp
    qed
  next
    case o
    then have "ss = []" using assms(1) by (simp add: build_other)
    then show ?thesis using assms(2) by simp
  qed
qed

theorem session_fields_witness:
  "status (monthly_row ''P'' (JStr ''T1'') ''2024-03-01'' ''Friday'' 1) = ''scheduled''
   \<and> day_of_week (monthly_row ''P'' (JStr ''T1'') ''2024-03-01'' ''Friday'' 1) \<noteq> None
   \<and> week_number (monthly_row ''P'' (JStr ''T1'') ''2024-03-01'' ''Friday'' 1) \<noteq> None"
proof -
  have b: "build_sessions (fixed_runtime 0) monthly_example =
      Inr [monthly_row ''P'' (JStr ''T1'') ''2024-03-01'' ''Friday'' 1]"
    by code_simp
  have t: "schedule_type monthly_example = ''monthly''" by (simp add: monthly_example_def)
  show ?thesis
    using session_fields [OF b, of "monthly_row ''P'' (JStr ''T1'') ''2024-03-01'' ''Friday'' 1"] t
    by simp
qed

text \<open>
  C10. The walks terminate on every input, for every \<open>Date.parse\<close> and every time
  zone (a \<open>runtime\<close>, daylight saving included): every chain of recursive calls of
  either loop is finite, and after finitely many advances the guard is false. An
  advance takes a valid date to the instant at which the local time is one day later (or,
  past the range of time values, makes it invalid): a later instant, less than two days
  on, and exactly one day on in a zone that keeps one offset. With an invalid start or end
  date the guard is false at once, so a weekly or monthly plan with such a date builds
  nothing and the call returns \<open>true\<close>. The custom branch is a structural recursion over
  the entry list.
\<close>

theorem day_walk_terminates:
  "weekly_loop_dom (rt, pid, sched, c, e, acc)
   \<and> monthly_loop_dom (rt, pid, sched, c, e, acc)
   \<and> (\<exists>n. \<not> date_le ((advance rt ^^ n) c) e)
   \<and> advance rt (Some t) = TimeClip (UTC rt (LocalTime rt t + msPerDay))
   \<and> t < UTC rt (LocalTime rt t + msPerDay)
   \<and> UTC rt (LocalTime rt t + msPerDay) < t + 2 * msPerDay
   \<and> advance (fixed_runtime off) (Some t) = TimeClip (t + msPerDay)
   \<and> \<not> date_le None e \<and> \<not> date_le c None
   \<and> ((new_Date rt (start_date p) = None \<or> new_Date rt (end_date p) = None)
        \<and> (schedule_type p = ''weekly'' \<or> schedule_type p = ''monthly'') \<longrightarrow>
        build_sessions rt p = Inr [] \<and> generatePlanSessions rt reply p db = (True, db))"
proof -
  have n: "\<not> date_le None e" "\<not> date_le c None" for c e
    by (simp_all add: date_le_def split: option.splits)
  have "build_sessions rt p = Inr [] \<and> generatePlanSessions rt reply p db = (True, db)"
    if d: "new_Date rt (start_date p) = None \<or> new_Date rt (end_date p) = None"
      and t: "schedule_type p = ''weekly'' \<or> schedule_type p = ''monthly''"
  proof -
    have "\<not> date_le (new_Date rt (start_date p)) (new_Date rt (end_date p))"
      using d n by auto
    then have "build_sessions rt p = Inr []"
      using t by (auto simp: build_weekly build_monthly weekly_loop_stop monthly_loop_stop)
    then show ?thesis by (simp add: generate_empty)
  qed
  moreover have "advance (fixed_runtime off) (Some t) = TimeClip (t + msPerDay)"
    by (rule advance_fixed [of _ off]) (rule LocalTZA_fixed_runtime)
  ultimately show ?thesis
    using guard_fails_eventually [of rt c e] n UTC_next_day [of t rt]
    by (simp add: advance_Some weekly_loop_total monthly_loop_total)
qed

theorem day_walk_terminates_witness:
  "weekly_loop_dom (los_angeles_2024, ''P'', JNull, Some 1710028800000, Some 1710201600000, [])
   \<and> monthly_loop_dom (los_angeles_2024, ''P'', JNull, Some 1710028800000, Some 1710201600000, [])
   \<and> advance los_angeles_2024 (Some 1710028800000) = Some 1710111600000
   \<and> advance (fixed_runtime utc_minus_8) (Some 1710028800000) = Some 1710115200000
   \<and> new_Date los_angeles_2024 (start_date invalid_date_example) = None
   \<and> build_sessions los_angeles_2024 invalid_date_example = Inr []
   \<and> generatePlanSessions los_angeles_2024 accept_all invalid_date_example empty_store
       = (True, empty_store)"
proof -
  have d: "new_Date los_angeles_2024 (start_date invalid_date_example) = None"
    by code_simp
  have t: "schedule_type invalid_date_example = ''weekly''"
    by (simp add: invalid_date_example_def)
  have u: "TimeClip (UTC los_angeles_2024 (LocalTime los_angeles_2024 1710028800000 + msPerDay))
      = Some 1710111600000"
    by code_simp
  have v: "TimeClip (1710028800000 + msPerDay) = Some 1710115200000"
    by code_simp
  show ?thesis
    using day_walk_terminates [of los_angeles_2024 "''P''" JNull "Some 1710028800000"
        "Some 1710201600000" "[]" 1710028800000 utc_minus_8 invalid_date_example
        accept_all empty_store] d t u v
    by simp
qed

end
